theory Spec2Isabelle
  imports Main "HOL-Library.Word" "HOL-Library.Multiset"
begin

section \<open>The V3 router of vtgate (go/vt/vtgate/router.go)\<close>

text \<open>
  The router is sequential per statement. One statement is modelled as a function from
  a state to an outcome and a new state. The state holds what the statement mutates
  (the query's bind variables) and a log of every call the router makes to a
  collaborator (topology service, vindex callbacks, scatter executor), each with the
  result the collaborator gave. A collaborator may answer differently on every call, so
  its model receives the log so far.

  An outcome is a normal return, a returned Go \<open>error\<close>, or a Go \<open>panic\<close>: the explicit
  \<open>panic("unexpected")\<close> of the source and the run-time panics of indexing, slicing
  and interface conversion. The router has no \<open>recover\<close>.

  Pointers of a plan (\<open>plan.Table\<close>, \<open>plan.Table.Keyspace\<close>, \<open>plan.ColVindex\<close>) are
  taken to be non-nil, contexts and cancellation are not modelled, and
  \<open>NewSafeSession\<close> is the identity on the session handle.
\<close>

subsection \<open>Values\<close>

text \<open>
  Go's \<open>interface{}\<close> values that the router distinguishes: \<open>nil\<close>, \<open>string\<close>,
  \<open>[]byte\<close>, \<open>int64\<close> (what a generator returns) and \<open>[]interface{}\<close>. A Go string
  is a byte sequence, as is an Isabelle \<open>string\<close>.
\<close>

datatype val = VNil | VStr string | VBytes string | VInt64 "64 word" | VList "val list"

type_synonym bindvars = "string \<rightharpoonup> val"

text \<open>\<open>key.KeyspaceId\<close> is a Go string type; \<open>key.MinKey\<close> is the empty one.\<close>

type_synonym ksid = string

definition MinKey :: ksid where
  "MinKey = []"

record KeyRange =
  Start :: ksid
  End :: ksid

text \<open>
  Modelled from the spec: \<open>topo.SrvShard\<close> is declared outside this file; the router
  only reads its \<open>ShardName()\<close>. A shard is a named half-open key range.
\<close>

record SrvShard =
  ShardName :: string
  ShardRange :: KeyRange

subsection \<open>Vindexes, tables, plans\<close>

text \<open>
  A vindex is a Go interface value. The router asks by type switch and type assertion
  which of the interfaces of package planbuilder it implements; the record holds the
  answers. Its methods are collaborators (record \<open>Env\<close> below).
\<close>

record Vindex =
  VindexName :: string
  isUnique :: bool
  isNonUnique :: bool
  isFunctional :: bool
  isLookup :: bool
  isFunctionalGenerator :: bool
  isLookupGenerator :: bool
  isReversible :: bool

record ColVindex =
  Col :: string
  Vindex :: Vindex
  Owned :: bool

record Keyspace =
  Name :: string

record Table =
  Keyspace :: Keyspace
  ColVindexes :: "ColVindex list"
  Owned :: "ColVindex list"

datatype PlanID =
    NoPlan
  | SelectUnsharded | SelectEqual | SelectIN | SelectKeyrange | SelectScatter
  | UpdateUnsharded | UpdateEqual
  | DeleteUnsharded | DeleteEqual
  | InsertUnsharded | InsertSharded

record Plan =
  ID :: PlanID
  Table :: Table
  ColVindex :: ColVindex
  Rewritten :: string
  Subquery :: string
  Values :: val

subsection \<open>Queries and results\<close>

record Query =
  Sql :: string
  BindVariables :: "bindvars option"
  TabletType :: string
  Session :: nat

record Field =
  Type :: int

record QueryResult =
  Fields :: "Field list"
  RowsAffected :: "64 word"
  InsertId :: "64 word"
  Rows :: "string list list"

text \<open>\<open>&mproto.QueryResult{}\<close>\<close>

definition emptyResult :: QueryResult where
  "emptyResult = \<lparr>Fields = [], RowsAffected = 0, InsertId = 0, Rows = []\<rparr>"

subsection \<open>Errors and outcomes\<close>

text \<open>
  One constructor for each \<open>fmt.Errorf\<close> of the file, carrying its arguments;
  \<open>errorFormat\<close> gives the format string. \<open>External\<close> is an error made by a
  collaborator.
\<close>

datatype error =
    ErrUnimplemented
  | ErrUnshardedMultiple string "SrvShard list"
  | ErrKeyrangeOneShard "val list"
  | ErrExpectingStrings "val list"
  | ErrMoreThanOneGenerated
  | ErrBothGenerated
  | ErrBindVarNotFound string
  | ErrValueMustBeSupplied string
  | ErrCouldNotMap val
  | ErrCouldNotCompute string
  | ErrDoesNotMap val string ksid
  | External string

fun errorFormat :: "error \<Rightarrow> string" where
  "errorFormat ErrUnimplemented = ''plan %+v unimplemented''"
| "errorFormat (ErrUnshardedMultiple ks allShards) =
     ''unsharded keyspace %s has multiple shards: %+v''"
| "errorFormat (ErrKeyrangeOneShard keys) = ''keyrange must match exactly one shard: %+v''"
| "errorFormat (ErrExpectingStrings keys) = ''expecting strings for keyrange: %+v''"
| "errorFormat ErrMoreThanOneGenerated = ''insert generated more than one value''"
| "errorFormat ErrBothGenerated = ''vindex and db generated a value each for insert''"
| "errorFormat (ErrBindVarNotFound v) = ''could not find bind var %s''"
| "errorFormat (ErrValueMustBeSupplied col) = ''value must be supplied for column %s''"
| "errorFormat (ErrCouldNotMap k) = ''could not map %v to a keyspace id''"
| "errorFormat (ErrCouldNotCompute col) = ''could not compute value for column %v''"
| "errorFormat (ErrDoesNotMap k col ks) =
     ''value %v for column %s does not map to keyspace id %v''"
| "errorFormat (External m) = m"

datatype 'a res = Ret 'a | Fail error | Crash string

subsection \<open>Collaborators and the call log\<close>

datatype event =
    EvGetKeyspaceShards string string "(string \<times> SrvShard list) res"
  | EvMapExactShards string string KeyRange "(string \<times> string list) res"
  | EvMapUnique Vindex "val list" "ksid list res"
  | EvMapNonUnique Vindex "val list" "ksid list list res"
  | EvCreate Vindex val "unit res"
  | EvCreateLookup Vindex val ksid "unit res"
  | EvGenerate Vindex "64 word res"
  | EvGenerateLookup Vindex ksid "64 word res"
  | EvVerify Vindex val ksid "bool res"
  | EvReverseMap Vindex ksid "val res"
  | EvDelete Vindex "val list" ksid "unit res"
  | EvExecute string bindvars string "string list" string nat "QueryResult res"
  | EvExecuteMulti string string "(string \<times> bindvars) list" string nat "QueryResult res"

text \<open>
  Everything the file uses and does not define. \<open>getShardForKeyspaceId\<close> and
  \<open>Convert\<close> compute from their arguments; the others may do I/O and are given the
  log. \<open>formatKsid\<close> is what \<open>%v\<close> prints for a \<open>key.KeyspaceId\<close>, and
  \<open>ListVarName\<close> is planbuilder's constant. Go does not say in which order \<open>range\<close>
  visits the keys of a map: \<open>rangeChoice\<close> stands for the choices the runtime makes
  (see \<open>rangeOver\<close> below).
\<close>

record Env =
  GetPlan :: "string \<Rightarrow> Plan"
  getKeyspaceShards :: "event list \<Rightarrow> string \<Rightarrow> string \<Rightarrow> (string \<times> SrvShard list) res"
  getShardForKeyspaceId :: "SrvShard list \<Rightarrow> ksid \<Rightarrow> string res"
  mapExactShards :: "event list \<Rightarrow> string \<Rightarrow> string \<Rightarrow> KeyRange \<Rightarrow> (string \<times> string list) res"
  MapUnique :: "event list \<Rightarrow> Vindex \<Rightarrow> val list \<Rightarrow> ksid list res"
  MapNonUnique :: "event list \<Rightarrow> Vindex \<Rightarrow> val list \<Rightarrow> ksid list list res"
  CreateFunctional :: "event list \<Rightarrow> Vindex \<Rightarrow> val \<Rightarrow> unit res"
  CreateLookup :: "event list \<Rightarrow> Vindex \<Rightarrow> val \<Rightarrow> ksid \<Rightarrow> unit res"
  GenerateFunctional :: "event list \<Rightarrow> Vindex \<Rightarrow> 64 word res"
  GenerateLookup :: "event list \<Rightarrow> Vindex \<Rightarrow> ksid \<Rightarrow> 64 word res"
  Verify :: "event list \<Rightarrow> Vindex \<Rightarrow> val \<Rightarrow> ksid \<Rightarrow> bool res"
  ReverseMap :: "event list \<Rightarrow> Vindex \<Rightarrow> ksid \<Rightarrow> val res"
  Delete :: "event list \<Rightarrow> Vindex \<Rightarrow> val list \<Rightarrow> ksid \<Rightarrow> unit res"
  Convert :: "int \<Rightarrow> string \<Rightarrow> val res"
  scatterExecute ::
    "event list \<Rightarrow> string \<Rightarrow> bindvars \<Rightarrow> string \<Rightarrow> string list \<Rightarrow> string \<Rightarrow> nat \<Rightarrow> QueryResult res"
  scatterExecuteMulti ::
    "event list \<Rightarrow> string \<Rightarrow> string \<Rightarrow> (string \<times> bindvars) list \<Rightarrow> string \<Rightarrow> nat
      \<Rightarrow> QueryResult res"
  ListVarName :: string
  formatKsid :: "ksid \<Rightarrow> string"
  rangeChoice :: "event list \<Rightarrow> nat list"

record rstate =
  bv :: bindvars
  trace :: "event list"

text \<open>A logged call: ask the collaborator, append the call and its result to the log.\<close>

definition logged :: "(event list \<Rightarrow> 'a res) \<Rightarrow> ('a res \<Rightarrow> event) \<Rightarrow> rstate \<Rightarrow> 'a res \<times> rstate" where
  "logged f ev st = (let r = f (trace st) in (r, st\<lparr>trace := trace st @ [ev r]\<rparr>))"

text \<open>
  Go's \<open>x, err := f(...); if err != nil { return ..., err }\<close>: go on with the value,
  or return the error (or let the panic through).
\<close>

definition andThen ::
  "'a res \<times> rstate \<Rightarrow> ('a \<Rightarrow> rstate \<Rightarrow> 'b res \<times> rstate) \<Rightarrow> 'b res \<times> rstate" where
  "andThen m f =
     (case m of
        (Ret x, st) \<Rightarrow> f x st
      | (Fail e, st) \<Rightarrow> (Fail e, st)
      | (Crash p, st) \<Rightarrow> (Crash p, st))"

definition call_getKeyspaceShards ::
  "Env \<Rightarrow> string \<Rightarrow> string \<Rightarrow> rstate \<Rightarrow> (string \<times> SrvShard list) res \<times> rstate" where
  "call_getKeyspaceShards env keyspace tabletType =
     logged (\<lambda>h. getKeyspaceShards env h keyspace tabletType)
            (EvGetKeyspaceShards keyspace tabletType)"

definition call_mapExactShards ::
  "Env \<Rightarrow> string \<Rightarrow> string \<Rightarrow> KeyRange \<Rightarrow> rstate \<Rightarrow> (string \<times> string list) res \<times> rstate" where
  "call_mapExactShards env keyspace tabletType kr =
     logged (\<lambda>h. mapExactShards env h keyspace tabletType kr)
            (EvMapExactShards keyspace tabletType kr)"

definition call_MapUnique :: "Env \<Rightarrow> Vindex \<Rightarrow> val list \<Rightarrow> rstate \<Rightarrow> ksid list res \<times> rstate" where
  "call_MapUnique env v ids = logged (\<lambda>h. MapUnique env h v ids) (EvMapUnique v ids)"

definition call_MapNonUnique ::
  "Env \<Rightarrow> Vindex \<Rightarrow> val list \<Rightarrow> rstate \<Rightarrow> ksid list list res \<times> rstate" where
  "call_MapNonUnique env v ids = logged (\<lambda>h. MapNonUnique env h v ids) (EvMapNonUnique v ids)"

definition call_Create :: "Env \<Rightarrow> Vindex \<Rightarrow> val \<Rightarrow> rstate \<Rightarrow> unit res \<times> rstate" where
  "call_Create env v k = logged (\<lambda>h. CreateFunctional env h v k) (EvCreate v k)"

definition call_CreateLookup :: "Env \<Rightarrow> Vindex \<Rightarrow> val \<Rightarrow> ksid \<Rightarrow> rstate \<Rightarrow> unit res \<times> rstate" where
  "call_CreateLookup env v k ks = logged (\<lambda>h. CreateLookup env h v k ks) (EvCreateLookup v k ks)"

definition call_Generate :: "Env \<Rightarrow> Vindex \<Rightarrow> rstate \<Rightarrow> 64 word res \<times> rstate" where
  "call_Generate env v = logged (\<lambda>h. GenerateFunctional env h v) (EvGenerate v)"

definition call_GenerateLookup :: "Env \<Rightarrow> Vindex \<Rightarrow> ksid \<Rightarrow> rstate \<Rightarrow> 64 word res \<times> rstate" where
  "call_GenerateLookup env v ks = logged (\<lambda>h. GenerateLookup env h v ks) (EvGenerateLookup v ks)"

definition call_Verify :: "Env \<Rightarrow> Vindex \<Rightarrow> val \<Rightarrow> ksid \<Rightarrow> rstate \<Rightarrow> bool res \<times> rstate" where
  "call_Verify env v k ks = logged (\<lambda>h. Verify env h v k ks) (EvVerify v k ks)"

definition call_ReverseMap :: "Env \<Rightarrow> Vindex \<Rightarrow> ksid \<Rightarrow> rstate \<Rightarrow> val res \<times> rstate" where
  "call_ReverseMap env v ks = logged (\<lambda>h. ReverseMap env h v ks) (EvReverseMap v ks)"

definition call_Delete :: "Env \<Rightarrow> Vindex \<Rightarrow> val list \<Rightarrow> ksid \<Rightarrow> rstate \<Rightarrow> unit res \<times> rstate" where
  "call_Delete env v ids ks = logged (\<lambda>h. Delete env h v ids ks) (EvDelete v ids ks)"

text \<open>
  \<open>rtr.scatterConn.Execute(ctx, sql, bindVars, keyspace, shards, tabletType, session)\<close>
  and \<open>ExecuteMulti\<close>; tablet type and session come from the query.
\<close>

definition call_Execute ::
  "Env \<Rightarrow> Query \<Rightarrow> string \<Rightarrow> bindvars \<Rightarrow> string \<Rightarrow> string list \<Rightarrow> rstate \<Rightarrow> QueryResult res \<times> rstate" where
  "call_Execute env query sql bindVars ks shards =
     logged (\<lambda>h. scatterExecute env h sql bindVars ks shards (TabletType query) (Session query))
            (EvExecute sql bindVars ks shards (TabletType query) (Session query))"

definition call_ExecuteMulti ::
  "Env \<Rightarrow> Query \<Rightarrow> string \<Rightarrow> string \<Rightarrow> (string \<times> bindvars) list \<Rightarrow> rstate
    \<Rightarrow> QueryResult res \<times> rstate" where
  "call_ExecuteMulti env query sql ks shardVars =
     logged (\<lambda>h. scatterExecuteMulti env h sql ks shardVars (TabletType query) (Session query))
            (EvExecuteMulti sql ks shardVars (TabletType query) (Session query))"

subsection \<open>Constants\<close>

definition ksidName :: string where
  "ksidName = ''keyspace_id''"

text \<open>\<open>fmt.Sprintf(dmlPostfix, ksid)\<close> with \<open>dmlPostfix = " /* _routing keyspace_id:%v */"\<close>\<close>

definition dmlPostfix :: "Env \<Rightarrow> ksid \<Rightarrow> string" where
  "dmlPostfix env k = '' /* _routing keyspace_id:'' @ formatKsid env k @ '' */''"

subsection \<open>resolveKeys\<close>

text \<open>
  The loop of \<open>resolveKeys\<close>, with the slice \<open>keys\<close> that it appends to. For a
  string item the source evaluates \<open>val[1:]\<close>, which panics on the empty string.
\<close>

fun resolveKeys_loop :: "val list \<Rightarrow> bindvars \<Rightarrow> val list \<Rightarrow> val list res" where
  "resolveKeys_loop [] bindVars keys = Ret keys"
| "resolveKeys_loop (VStr s # vals) bindVars keys =
     (case s of
        [] \<Rightarrow> Crash ''slice bounds out of range''
      | c # name \<Rightarrow>
          (case bindVars name of
             None \<Rightarrow> Fail (ErrBindVarNotFound s)
           | Some v \<Rightarrow> resolveKeys_loop vals bindVars (keys @ [v])))"
| "resolveKeys_loop (VBytes b # vals) bindVars keys =
     resolveKeys_loop vals bindVars (keys @ [VStr b])"
| "resolveKeys_loop (v # vals) bindVars keys = resolveKeys_loop vals bindVars (keys @ [v])"

definition resolveKeys :: "val list \<Rightarrow> bindvars \<Rightarrow> val list res" where
  "resolveKeys vals bindVars = resolveKeys_loop vals bindVars []"

subsection \<open>Routing maps\<close>

text \<open>
  Modelled from the spec: \<open>routingMap\<close> with its methods \<open>Add\<close> and \<open>Shards\<close> is
  declared elsewhere in package vtgate. It maps a shard name to the list of input keys
  routed there; \<open>Add\<close> appends a key to the list of its shard, \<open>Shards\<close> lists the
  shard names. Go leaves the order of a map's keys open; the model keeps them in order
  of first insertion. The nil map has no shards.
\<close>

type_synonym routingMap = "(string \<times> val list) list"

fun routing_Add :: "routingMap \<Rightarrow> string \<Rightarrow> val \<Rightarrow> routingMap" where
  "routing_Add [] shard v = [(shard, [v])]"
| "routing_Add ((s, vs) # rest) shard v =
     (if s = shard then (s, vs @ [v]) # rest else (s, vs) # routing_Add rest shard v)"

definition routing_Shards :: "routingMap \<Rightarrow> string list" where
  "routing_Shards routing = map fst routing"

subsection \<open>resolveShards and resolveSingleShard\<close>

text \<open>The loop over \<open>ksids\<close> in the \<open>Unique\<close> case; \<open>i\<close> is the loop index.\<close>

fun resolveShards_unique ::
  "Env \<Rightarrow> SrvShard list \<Rightarrow> val list \<Rightarrow> nat \<Rightarrow> ksid list \<Rightarrow> routingMap \<Rightarrow> routingMap res" where
  "resolveShards_unique env allShards vindexKeys i [] routing = Ret routing"
| "resolveShards_unique env allShards vindexKeys i (k # ksids) routing =
     (if k = MinKey then resolveShards_unique env allShards vindexKeys (Suc i) ksids routing
      else
        (case getShardForKeyspaceId env allShards k of
           Fail e \<Rightarrow> Fail e
         | Crash p \<Rightarrow> Crash p
         | Ret shard \<Rightarrow>
             if i < length vindexKeys
             then resolveShards_unique env allShards vindexKeys (Suc i) ksids
                    (routing_Add routing shard (vindexKeys ! i))
             else Crash ''index out of range''))"

text \<open>The inner loop of the \<open>NonUnique\<close> case, over the keyspace ids of key \<open>i\<close>.\<close>

fun resolveShards_inner ::
  "Env \<Rightarrow> SrvShard list \<Rightarrow> val list \<Rightarrow> nat \<Rightarrow> ksid list \<Rightarrow> routingMap \<Rightarrow> routingMap res" where
  "resolveShards_inner env allShards vindexKeys i [] routing = Ret routing"
| "resolveShards_inner env allShards vindexKeys i (k # ksids) routing =
     (if k = MinKey then resolveShards_inner env allShards vindexKeys i ksids routing
      else
        (case getShardForKeyspaceId env allShards k of
           Fail e \<Rightarrow> Fail e
         | Crash p \<Rightarrow> Crash p
         | Ret shard \<Rightarrow>
             if i < length vindexKeys
             then resolveShards_inner env allShards vindexKeys i ksids
                    (routing_Add routing shard (vindexKeys ! i))
             else Crash ''index out of range''))"

fun resolveShards_nonunique ::
  "Env \<Rightarrow> SrvShard list \<Rightarrow> val list \<Rightarrow> nat \<Rightarrow> ksid list list \<Rightarrow> routingMap \<Rightarrow> routingMap res" where
  "resolveShards_nonunique env allShards vindexKeys i [] routing = Ret routing"
| "resolveShards_nonunique env allShards vindexKeys i (ksids # ksidss) routing =
     (case resolveShards_inner env allShards vindexKeys i ksids routing of
        Fail e \<Rightarrow> Fail e
      | Crash p \<Rightarrow> Crash p
      | Ret routing' \<Rightarrow> resolveShards_nonunique env allShards vindexKeys (Suc i) ksidss routing')"

text \<open>
  The type switch takes the first case that matches: \<open>Unique\<close>, then \<open>NonUnique\<close>,
  then \<open>default: panic("unexpected")\<close>.
\<close>

definition resolveShards ::
  "Env \<Rightarrow> Query \<Rightarrow> val list \<Rightarrow> Plan \<Rightarrow> rstate \<Rightarrow> (string \<times> routingMap) res \<times> rstate" where
  "resolveShards env query vindexKeys plan st =
     andThen (call_getKeyspaceShards env (Name (Keyspace (Table plan))) (TabletType query) st)
       (\<lambda>(newKeyspace, allShards) st1.
          if isUnique (Vindex (ColVindex plan)) then
            andThen (call_MapUnique env (Vindex (ColVindex plan)) vindexKeys st1)
              (\<lambda>ksids st2.
                 (case resolveShards_unique env allShards vindexKeys 0 ksids [] of
                    Fail e \<Rightarrow> (Fail e, st2)
                  | Crash p \<Rightarrow> (Crash p, st2)
                  | Ret routing \<Rightarrow> (Ret (newKeyspace, routing), st2)))
          else if isNonUnique (Vindex (ColVindex plan)) then
            andThen (call_MapNonUnique env (Vindex (ColVindex plan)) vindexKeys st1)
              (\<lambda>ksidss st2.
                 (case resolveShards_nonunique env allShards vindexKeys 0 ksidss [] of
                    Fail e \<Rightarrow> (Fail e, st2)
                  | Crash p \<Rightarrow> (Crash p, st2)
                  | Ret routing \<Rightarrow> (Ret (newKeyspace, routing), st2)))
          else (Crash ''unexpected'', st1))"

definition resolveSingleShard ::
  "Env \<Rightarrow> Query \<Rightarrow> val \<Rightarrow> Plan \<Rightarrow> rstate \<Rightarrow> (string \<times> string \<times> ksid) res \<times> rstate" where
  "resolveSingleShard env query vindexKey plan st =
     andThen (call_getKeyspaceShards env (Name (Keyspace (Table plan))) (TabletType query) st)
       (\<lambda>(newKeyspace, allShards) st1.
          if \<not> isUnique (Vindex (ColVindex plan)) then (Crash ''unexpected'', st1)
          else
            andThen (call_MapUnique env (Vindex (ColVindex plan)) [vindexKey] st1)
              (\<lambda>ksids st2.
                 if length ksids \<noteq> 1 then (Crash ''unexpected'', st2)
                 else
                   (let k = ksids ! 0 in
                    if k = MinKey then (Ret ([], [], k), st2)
                    else
                      (case getShardForKeyspaceId env allShards k of
                         Fail e \<Rightarrow> (Fail e, st2)
                       | Crash p \<Rightarrow> (Crash p, st2)
                       | Ret shard \<Rightarrow> (Ret (newKeyspace, shard, k), st2)))))"

definition getRouting ::
  "Env \<Rightarrow> string \<Rightarrow> string \<Rightarrow> ksid \<Rightarrow> rstate \<Rightarrow> (string \<times> string) res \<times> rstate" where
  "getRouting env keyspace tabletType k st =
     andThen (call_getKeyspaceShards env keyspace tabletType st)
       (\<lambda>(newKeyspace, allShards) st1.
          (case getShardForKeyspaceId env allShards k of
             Fail e \<Rightarrow> (Fail e, st1)
           | Crash p \<Rightarrow> (Crash p, st1)
           | Ret shard \<Rightarrow> (Ret (newKeyspace, shard), st1)))"

subsection \<open>Read executors\<close>

definition execUnsharded :: "Env \<Rightarrow> Query \<Rightarrow> Plan \<Rightarrow> rstate \<Rightarrow> QueryResult res \<times> rstate" where
  "execUnsharded env query plan st =
     andThen (call_getKeyspaceShards env (Name (Keyspace (Table plan))) (TabletType query) st)
       (\<lambda>(ks, allShards) st1.
          if length allShards \<noteq> 1 then (Fail (ErrUnshardedMultiple ks allShards), st1)
          else call_Execute env query (Sql query) (bv st1) ks [ShardName (allShards ! 0)] st1)"

text \<open>
  \<open>execSelectEqual\<close> and \<open>execSelectIN\<close> assign the error of \<open>resolveShards\<close> to
  \<open>err\<close> and never read it: on an error they go on with the values returned beside
  it, which are \<open>""\<close> and the nil routing map. A panic is not a return value and
  unwinds through them.
\<close>

definition execSelectEqual :: "Env \<Rightarrow> Query \<Rightarrow> Plan \<Rightarrow> rstate \<Rightarrow> QueryResult res \<times> rstate" where
  "execSelectEqual env query plan st =
     (case resolveKeys [Values plan] (bv st) of
        Fail e \<Rightarrow> (Fail e, st)
      | Crash p \<Rightarrow> (Crash p, st)
      | Ret keys \<Rightarrow>
          (case resolveShards env query keys plan st of
             (Crash p, st1) \<Rightarrow> (Crash p, st1)
           | (Fail err, st1) \<Rightarrow>
               call_Execute env query (Rewritten plan) (bv st1) [] (routing_Shards []) st1
           | (Ret (ks, routing), st1) \<Rightarrow>
               call_Execute env query (Rewritten plan) (bv st1) ks (routing_Shards routing) st1))"

text \<open>
  The loop of \<open>execSelectIN\<close> that builds \<open>shardVars\<close>: for each shard a copy of the
  bind variables with the shard's keys under \<open>ListVarName\<close>.
\<close>

definition shardVarsOf :: "Env \<Rightarrow> bindvars \<Rightarrow> routingMap \<Rightarrow> (string \<times> bindvars) list" where
  "shardVarsOf env bindVars routing =
     map (\<lambda>(shard, vals). (shard, bindVars(ListVarName env \<mapsto> VList vals))) routing"

definition execSelectIN :: "Env \<Rightarrow> Query \<Rightarrow> Plan \<Rightarrow> rstate \<Rightarrow> QueryResult res \<times> rstate" where
  "execSelectIN env query plan st =
     (case Values plan of
        VList input \<Rightarrow>
          (case resolveKeys input (bv st) of
             Fail e \<Rightarrow> (Fail e, st)
           | Crash p \<Rightarrow> (Crash p, st)
           | Ret keys \<Rightarrow>
               (case resolveShards env query keys plan st of
                  (Crash p, st1) \<Rightarrow> (Crash p, st1)
                | (Fail err, st1) \<Rightarrow>
                    call_ExecuteMulti env query (Rewritten plan) []
                      (shardVarsOf env (bv st1) []) st1
                | (Ret (ks, routing), st1) \<Rightarrow>
                    call_ExecuteMulti env query (Rewritten plan) ks
                      (shardVarsOf env (bv st1) routing) st1))
      | _ \<Rightarrow> (Crash ''interface conversion'', st))"

text \<open>The loop of \<open>getKeyRange\<close>: \<open>None\<close> at the first key that is not a string.\<close>

fun getKeyRange_loop :: "val list \<Rightarrow> ksid list \<Rightarrow> ksid list option" where
  "getKeyRange_loop [] ksids = Some ksids"
| "getKeyRange_loop (VStr k # keys) ksids = getKeyRange_loop keys (ksids @ [k])"
| "getKeyRange_loop (v # keys) ksids = None"

definition getKeyRange :: "val list \<Rightarrow> KeyRange res" where
  "getKeyRange keys =
     (case getKeyRange_loop keys [] of
        None \<Rightarrow> Fail (ErrExpectingStrings keys)
      | Some ksids \<Rightarrow>
          if length ksids < 2 then Crash ''index out of range''
          else Ret \<lparr>Start = ksids ! 0, End = ksids ! 1\<rparr>)"

definition execSelectKeyrange :: "Env \<Rightarrow> Query \<Rightarrow> Plan \<Rightarrow> rstate \<Rightarrow> QueryResult res \<times> rstate" where
  "execSelectKeyrange env query plan st =
     (case Values plan of
        VList input \<Rightarrow>
          (case resolveKeys input (bv st) of
             Fail e \<Rightarrow> (Fail e, st)
           | Crash p \<Rightarrow> (Crash p, st)
           | Ret keys \<Rightarrow>
               (case getKeyRange keys of
                  Fail e \<Rightarrow> (Fail e, st)
                | Crash p \<Rightarrow> (Crash p, st)
                | Ret kr \<Rightarrow>
                    andThen (call_mapExactShards env (Name (Keyspace (Table plan)))
                               (TabletType query) kr st)
                      (\<lambda>(ks, shards) st1.
                         if length shards \<noteq> 1 then (Fail (ErrKeyrangeOneShard keys), st1)
                         else call_Execute env query (Rewritten plan) (bv st1) ks shards st1)))
      | _ \<Rightarrow> (Crash ''interface conversion'', st))"

definition execSelectScatter :: "Env \<Rightarrow> Query \<Rightarrow> Plan \<Rightarrow> rstate \<Rightarrow> QueryResult res \<times> rstate" where
  "execSelectScatter env query plan st =
     andThen (call_getKeyspaceShards env (Name (Keyspace (Table plan))) (TabletType query) st)
       (\<lambda>(ks, allShards) st1.
          call_Execute env query (Rewritten plan) (bv st1) ks (map ShardName allShards) st1)"

subsection \<open>Deleting the entries of owned vindexes\<close>

text \<open>
  A Go map whose values are all \<open>true\<close> is a list of keys without duplicates here;
  \<open>addKey\<close> is \<open>keys[k] = true\<close>.
\<close>

definition addKey :: "val \<Rightarrow> val list \<Rightarrow> val list" where
  "addKey k keys = (if k \<in> set keys then keys else keys @ [k])"

text \<open>
  \<open>for k := range keys\<close> visits every key once, in an order that Go leaves open. The
  runtime's choices are a list of numbers: each picks the next key among those not yet
  visited; when the list ends, the rest is visited as it stands. Every order of the keys
  comes from some list of choices.
\<close>

fun rangeOver :: "nat list \<Rightarrow> 'a list \<Rightarrow> 'a list" where
  "rangeOver [] keys = keys"
| "rangeOver (n # ns) keys =
     (if keys = [] then []
      else (let i = n mod length keys
            in keys ! i # rangeOver ns (take i keys @ drop (Suc i) keys)))"

text \<open>
  The inner loop of \<open>deleteVindexEntries\<close> for column \<open>i\<close>: convert the column of
  every row and collect the values as the keys of a Go map, a \<open>[]byte\<close> as a string.
  A \<open>[]interface{}\<close> cannot be the key of a Go map.
\<close>

fun collectKeys :: "Env \<Rightarrow> Field list \<Rightarrow> nat \<Rightarrow> string list list \<Rightarrow> val list \<Rightarrow> val list res" where
  "collectKeys env flds i [] keys = Ret keys"
| "collectKeys env flds i (row # rows) keys =
     (if \<not> (i < length flds \<and> i < length row) then Crash ''index out of range''
      else
        (case Convert env (Type (flds ! i)) (row ! i) of
           Fail e \<Rightarrow> Fail e
         | Crash p \<Rightarrow> Crash p
         | Ret k \<Rightarrow>
             (case k of
                VBytes b \<Rightarrow> collectKeys env flds i rows (addKey (VStr b) keys)
              | VList l \<Rightarrow> Crash ''hash of unhashable type''
              | _ \<Rightarrow> collectKeys env flds i rows (addKey k keys))))"

text \<open>
  The loop over \<open>plan.Table.Owned\<close>; \<open>i\<close> is the loop index. The ids are the keys
  of the map in the order in which \<open>range\<close> visits them.
\<close>

fun deleteVindexEntries_loop ::
  "Env \<Rightarrow> QueryResult \<Rightarrow> ksid \<Rightarrow> nat \<Rightarrow> ColVindex list \<Rightarrow> rstate \<Rightarrow> unit res \<times> rstate" where
  "deleteVindexEntries_loop env result k i [] st = (Ret (), st)"
| "deleteVindexEntries_loop env result k i (colVindex # owned) st =
     (case collectKeys env (Fields result) i (Rows result) [] of
        Fail e \<Rightarrow> (Fail e, st)
      | Crash p \<Rightarrow> (Crash p, st)
      | Ret keys \<Rightarrow>
          if isFunctional (Vindex colVindex) \<or> isLookup (Vindex colVindex) then
            andThen (call_Delete env (Vindex colVindex)
                       (rangeOver (rangeChoice env (trace st)) keys) k st)
              (\<lambda>u st1. deleteVindexEntries_loop env result k (Suc i) owned st1)
          else (Crash ''unexpceted'', st))"

definition deleteVindexEntries ::
  "Env \<Rightarrow> Query \<Rightarrow> Plan \<Rightarrow> string \<Rightarrow> string \<Rightarrow> ksid \<Rightarrow> rstate \<Rightarrow> unit res \<times> rstate" where
  "deleteVindexEntries env query plan ks shard k st =
     andThen (call_Execute env query (Subquery plan) (bv st) ks [shard] st)
       (\<lambda>result st1.
          if length (Rows result) = 0 then (Ret (), st1)
          else if length (Rows result ! 0) \<noteq> length (Table.Owned (Table plan))
          then (Crash ''unexpected'', st1)
          else deleteVindexEntries_loop env result k 0 (Table.Owned (Table plan)) st1)"

subsection \<open>DML executors\<close>

definition execUpdateEqual :: "Env \<Rightarrow> Query \<Rightarrow> Plan \<Rightarrow> rstate \<Rightarrow> QueryResult res \<times> rstate" where
  "execUpdateEqual env query plan st =
     (case resolveKeys [Values plan] (bv st) of
        Fail e \<Rightarrow> (Fail e, st)
      | Crash p \<Rightarrow> (Crash p, st)
      | Ret keys \<Rightarrow>
          andThen (resolveSingleShard env query (keys ! 0) plan st)
            (\<lambda>(ks, shard, k) st1.
               if k = MinKey then (Ret emptyResult, st1)
               else
                 (let st2 = st1\<lparr>bv := (bv st1)(ksidName \<mapsto> VStr k)\<rparr>;
                      rewritten = Rewritten plan @ dmlPostfix env k
                  in call_Execute env query rewritten (bv st2) ks [shard] st2)))"

definition execDeleteEqual :: "Env \<Rightarrow> Query \<Rightarrow> Plan \<Rightarrow> rstate \<Rightarrow> QueryResult res \<times> rstate" where
  "execDeleteEqual env query plan st =
     (case resolveKeys [Values plan] (bv st) of
        Fail e \<Rightarrow> (Fail e, st)
      | Crash p \<Rightarrow> (Crash p, st)
      | Ret keys \<Rightarrow>
          andThen (resolveSingleShard env query (keys ! 0) plan st)
            (\<lambda>(ks, shard, k) st1.
               if k = MinKey then (Ret emptyResult, st1)
               else
                 andThen
                   (if Subquery plan \<noteq> [] then deleteVindexEntries env query plan ks shard k st1
                    else (Ret (), st1))
                   (\<lambda>u st2.
                      (let st3 = st2\<lparr>bv := (bv st2)(ksidName \<mapsto> VStr k)\<rparr>;
                           rewritten = Rewritten plan @ dmlPostfix env k
                       in call_Execute env query rewritten (bv st3) ks [shard] st3))))"

subsection \<open>Insert\<close>

text \<open>
  The first part of \<open>handlePrimary\<close> and of \<open>handleNonPrimary\<close> settles the pair
  \<open>(vindexKey, generated)\<close>; the second part uses it. The assertions
  \<open>colVindex.Vindex.(planbuilder.Functional)\<close>, \<open>.(planbuilder.Lookup)\<close> and
  \<open>.(planbuilder.Unique)\<close> have no \<open>ok\<close> result and panic when they fail.
\<close>

definition handlePrimary ::
  "Env \<Rightarrow> val \<Rightarrow> ColVindex \<Rightarrow> rstate \<Rightarrow> (ksid \<times> 64 word) res \<times> rstate" where
  "handlePrimary env vindexKey colVindex st =
     andThen
       (if ColVindex.Owned colVindex then
          (if vindexKey = VNil then
             (if \<not> isFunctionalGenerator (Vindex colVindex)
              then (Fail (ErrValueMustBeSupplied (Col colVindex)), st)
              else andThen (call_Generate env (Vindex colVindex) st)
                     (\<lambda>generated st1. (Ret (VInt64 generated, generated), st1)))
           else if \<not> isFunctional (Vindex colVindex) then (Crash ''interface conversion'', st)
           else andThen (call_Create env (Vindex colVindex) vindexKey st)
                  (\<lambda>u st1. (Ret (vindexKey, 0), st1)))
        else (Ret (vindexKey, 0), st))
       (\<lambda>(vindexKey, generated) st1.
          if vindexKey = VNil then (Fail (ErrValueMustBeSupplied (Col colVindex)), st1)
          else if \<not> isUnique (Vindex colVindex) then (Crash ''interface conversion'', st1)
          else
            andThen (call_MapUnique env (Vindex colVindex) [vindexKey] st1)
              (\<lambda>ksids st2.
                 (case ksids of
                    [] \<Rightarrow> (Crash ''index out of range'', st2)
                  | k # rest \<Rightarrow>
                      if k = MinKey then (Fail (ErrCouldNotMap vindexKey), st2)
                      else (Ret (k, generated),
                            st2\<lparr>bv := (bv st2)(''_'' @ Col colVindex \<mapsto> vindexKey)\<rparr>))))"

definition handleNonPrimary ::
  "Env \<Rightarrow> val \<Rightarrow> ColVindex \<Rightarrow> ksid \<Rightarrow> rstate \<Rightarrow> 64 word res \<times> rstate" where
  "handleNonPrimary env vindexKey colVindex k st =
     andThen
       (if ColVindex.Owned colVindex then
          (if vindexKey = VNil then
             (if \<not> isLookupGenerator (Vindex colVindex)
              then (Fail (ErrValueMustBeSupplied (Col colVindex)), st)
              else andThen (call_GenerateLookup env (Vindex colVindex) k st)
                     (\<lambda>generated st1. (Ret (VInt64 generated, generated), st1)))
           else if \<not> isLookup (Vindex colVindex) then (Crash ''interface conversion'', st)
           else andThen (call_CreateLookup env (Vindex colVindex) vindexKey k st)
                  (\<lambda>u st1. (Ret (vindexKey, 0), st1)))
        else
          (if vindexKey = VNil then
             (if \<not> isReversible (Vindex colVindex)
              then (Fail (ErrValueMustBeSupplied (Col colVindex)), st)
              else andThen (call_ReverseMap env (Vindex colVindex) k st)
                     (\<lambda>vindexKey st1.
                        if vindexKey = VNil then (Fail (ErrCouldNotCompute (Col colVindex)), st1)
                        else (Ret (vindexKey, 0), st1)))
           else andThen (call_Verify env (Vindex colVindex) vindexKey k st)
                  (\<lambda>ok st1.
                     if \<not> ok then (Fail (ErrDoesNotMap vindexKey (Col colVindex) k), st1)
                     else (Ret (vindexKey, 0), st1))))
       (\<lambda>(vindexKey, generated) st1.
          (Ret generated, st1\<lparr>bv := (bv st1)(''_'' @ Col colVindex \<mapsto> vindexKey)\<rparr>))"

text \<open>
  The loop \<open>for i := 1; i < len(keys); i++\<close> of \<open>execInsertSharded\<close>, over the keys
  from index \<open>i\<close> on, with the running value of \<open>generated\<close>.
\<close>

fun execInsertSharded_loop ::
  "Env \<Rightarrow> val list \<Rightarrow> nat \<Rightarrow> ColVindex list \<Rightarrow> ksid \<Rightarrow> 64 word \<Rightarrow> rstate \<Rightarrow> 64 word res \<times> rstate" where
  "execInsertSharded_loop env [] i colVindexes k generated st = (Ret generated, st)"
| "execInsertSharded_loop env (key # keys) i colVindexes k generated st =
     (if \<not> i < length colVindexes then (Crash ''index out of range'', st)
      else
        andThen (handleNonPrimary env key (colVindexes ! i) k st)
          (\<lambda>newgen st1.
             if newgen \<noteq> 0 then
               (if generated \<noteq> 0 then (Fail ErrMoreThanOneGenerated, st1)
                else execInsertSharded_loop env keys (Suc i) colVindexes k newgen st1)
             else execInsertSharded_loop env keys (Suc i) colVindexes k generated st1))"

definition execInsertSharded :: "Env \<Rightarrow> Query \<Rightarrow> Plan \<Rightarrow> rstate \<Rightarrow> QueryResult res \<times> rstate" where
  "execInsertSharded env query plan st =
     (case Values plan of
        VList input \<Rightarrow>
          (case resolveKeys input (bv st) of
             Fail e \<Rightarrow> (Fail e, st)
           | Crash p \<Rightarrow> (Crash p, st)
           | Ret keys \<Rightarrow>
               if keys = [] \<or> ColVindexes (Table plan) = []
               then (Crash ''index out of range'', st)
               else
                 andThen (handlePrimary env (keys ! 0) (ColVindexes (Table plan) ! 0) st)
                   (\<lambda>(k, generated) st1.
                      andThen (getRouting env (Name (Keyspace (Table plan)))
                                 (TabletType query) k st1)
                        (\<lambda>(ks, shard) st2.
                           andThen (execInsertSharded_loop env (drop 1 keys) 1
                                      (ColVindexes (Table plan)) k generated st2)
                             (\<lambda>generated st3.
                                (let st4 = st3\<lparr>bv := (bv st3)(ksidName \<mapsto> VStr k)\<rparr>;
                                     rewritten = Rewritten plan @ dmlPostfix env k
                                 in andThen
                                      (call_Execute env query rewritten (bv st4) ks [shard] st4)
                                      (\<lambda>result st5.
                                         if generated \<noteq> 0 then
                                           (if InsertId result \<noteq> 0
                                            then (Fail ErrBothGenerated, st5)
                                            else (Ret (result\<lparr>InsertId := generated\<rparr>), st5))
                                         else (Ret result, st5)))))))
      | _ \<Rightarrow> (Crash ''interface conversion'', st))"

subsection \<open>Execute\<close>

text \<open>
  A nil map of bind variables is replaced by an empty one; the log starts empty.
\<close>

definition initState :: "Query \<Rightarrow> rstate" where
  "initState query =
     \<lparr>bv = (case BindVariables query of None \<Rightarrow> Map.empty | Some b \<Rightarrow> b), trace = []\<rparr>"

definition Execute :: "Env \<Rightarrow> Query \<Rightarrow> QueryResult res \<times> rstate" where
  "Execute env query =
     (let st = initState query;
          plan = GetPlan env (Sql query)
      in case ID plan of
           SelectUnsharded \<Rightarrow> execUnsharded env query plan st
         | UpdateUnsharded \<Rightarrow> execUnsharded env query plan st
         | DeleteUnsharded \<Rightarrow> execUnsharded env query plan st
         | InsertUnsharded \<Rightarrow> execUnsharded env query plan st
         | SelectEqual \<Rightarrow> execSelectEqual env query plan st
         | SelectIN \<Rightarrow> execSelectIN env query plan st
         | SelectKeyrange \<Rightarrow> execSelectKeyrange env query plan st
         | SelectScatter \<Rightarrow> execSelectScatter env query plan st
         | UpdateEqual \<Rightarrow> execUpdateEqual env query plan st
         | DeleteEqual \<Rightarrow> execDeleteEqual env query plan st
         | InsertSharded \<Rightarrow> execInsertSharded env query plan st
         | NoPlan \<Rightarrow> (Fail ErrUnimplemented, st))"

subsection \<open>Reading the log\<close>

text \<open>A dispatch is a call of the scatter executor.\<close>

fun isDispatch :: "event \<Rightarrow> bool" where
  "isDispatch (EvExecute sql bindVars ks shards tabletType session r) = True"
| "isDispatch (EvExecuteMulti sql ks shardVars tabletType session r) = True"
| "isDispatch e = False"

subsection \<open>Auxiliary notions for stating the properties\<close>

text \<open>Apply a function to a returned value, keep an error or a panic.\<close>

fun onRet :: "('a \<Rightarrow> 'b) \<Rightarrow> 'a res \<Rightarrow> 'b res" where
  "onRet f (Ret x) = Ret (f x)"
| "onRet f (Fail e) = Fail e"
| "onRet f (Crash p) = Crash p"

text \<open>
  What one item of the values list resolves to, in the words of the specification
  (section 4.2): a string is a bind-variable reference whose name is the string minus
  its first byte, \<open>None\<close> when that bind variable is absent; a byte string becomes
  text; anything else is passed through.
\<close>

fun spec_resolved :: "bindvars \<Rightarrow> val \<Rightarrow> val option" where
  "spec_resolved bindVars (VStr s) = bindVars (drop 1 s)"
| "spec_resolved bindVars (VBytes b) = Some (VStr b)"
| "spec_resolved bindVars v = Some v"

text \<open>A call of a vindex's \<open>Delete\<close>, and a call of a \<open>Unique\<close> vindex's \<open>Map\<close>.\<close>

fun isDelete :: "event \<Rightarrow> bool" where
  "isDelete (EvDelete v ids k r) = True"
| "isDelete e = False"

fun isMapUnique :: "event \<Rightarrow> bool" where
  "isMapUnique (EvMapUnique v ids r) = True"
| "isMapUnique e = False"

text \<open>A call of a \<open>Unique\<close> vindex's \<open>Map\<close> that returned \<open>k\<close> as its first keyspace id.\<close>

fun mapsTo :: "ksid \<Rightarrow> event \<Rightarrow> bool" where
  "mapsTo k (EvMapUnique v ids (Ret (k' # rest))) = (k' = k)"
| "mapsTo k e = False"

text \<open>The value that a call of \<open>Generate\<close> returned, and those of a log that are not 0.\<close>

fun generatedValue :: "event \<Rightarrow> 64 word option" where
  "generatedValue (EvGenerate v (Ret g)) = Some g"
| "generatedValue (EvGenerateLookup v k (Ret g)) = Some g"
| "generatedValue e = None"

definition generatedValues :: "event list \<Rightarrow> 64 word list" where
  "generatedValues tr = List.map_filter generatedValue tr"

definition nonzero :: "64 word list \<Rightarrow> 64 word list" where
  "nonzero gs = filter (\<lambda>g. g \<noteq> 0) gs"

text \<open>The non-zero values that the variable \<open>generated\<close> of the source stands for.\<close>

definition G :: "64 word \<Rightarrow> 64 word list" where
  "G g = (if g = 0 then [] else [g])"

text \<open>
  The end of \<open>execInsertSharded\<close>: what it returns when \<open>generated\<close> is \<open>g\<close> and the
  scatter executor gave \<open>res\<close>.
\<close>

definition insertOutcome :: "64 word \<Rightarrow> QueryResult res \<Rightarrow> QueryResult res" where
  "insertOutcome g res =
     (case res of
        Ret result \<Rightarrow>
          if g \<noteq> 0 then (if InsertId result \<noteq> 0 then Fail ErrBothGenerated
                          else Ret (result\<lparr>InsertId := g\<rparr>))
          else Ret result
      | Fail e \<Rightarrow> Fail e
      | Crash p \<Rightarrow> Crash p)"

text \<open>The key under which the source files a converted column value in its Go map.\<close>

fun keyOf :: "val \<Rightarrow> val" where
  "keyOf (VBytes b) = VStr b"
| "keyOf v = v"

text \<open>
  The ids of column \<open>j\<close> in the words of the specification (section 4.6): every row
  of the subquery result has the column and its value converts without error (to a
  value that can be a map key), and the ids are the distinct column values across all
  rows, a byte string taken as text, in any order.
\<close>

definition columnIds :: "Env \<Rightarrow> QueryResult \<Rightarrow> nat \<Rightarrow> val list \<Rightarrow> bool" where
  "columnIds env result j ids \<longleftrightarrow>
     (\<forall>row\<in>set (Rows result).
        j < length (Fields result) \<and> j < length row
        \<and> (\<exists>c. Convert env (Type (Fields result ! j)) (row ! j) = Ret c \<and> (\<forall>l. c \<noteq> VList l)))
     \<and> distinct ids
     \<and> set ids = {keyOf c |c row. row \<in> set (Rows result)
                     \<and> Convert env (Type (Fields result ! j)) (row ! j) = Ret c}"

text \<open>
  The \<open>Delete\<close> calls of a deletion protocol that completed on the subquery result
  \<open>result\<close>: none when there are no rows, else exactly one for each owned ColVindex,
  in order, with the ids of its column and the keyspace id, each successful.
\<close>

definition protocolDeletes :: "Env \<Rightarrow> Plan \<Rightarrow> QueryResult \<Rightarrow> ksid \<Rightarrow> event list \<Rightarrow> bool" where
  "protocolDeletes env plan result k dels \<longleftrightarrow>
     (if Rows result = [] then dels = []
      else \<exists>idss. length idss = length (Table.Owned (Table plan))
             \<and> dels = map (\<lambda>(cv, ids). EvDelete (Vindex cv) ids k (Ret ()))
                        (zip (Table.Owned (Table plan)) idss)
             \<and> (\<forall>j<length (Table.Owned (Table plan)). columnIds env result j (idss ! j)))"

text \<open>
  A call of a \<open>Unique\<close> vindex's \<open>Map\<close> that returned the keyspace id \<open>k\<close> and no
  other.
\<close>

fun mapsOnlyTo :: "ksid \<Rightarrow> event \<Rightarrow> bool" where
  "mapsOnlyTo k (EvMapUnique v ids (Ret [k'])) = (k' = k)"
| "mapsOnlyTo k e = False"

subsection \<open>A concrete router\<close>

text \<open>
  The fixture of the router's tests (\<open>router_test.json\<close>): the vindexes
  \<open>user_index\<close> (hash, unique), \<open>music_user_map\<close> (unique lookup) and
  \<open>name_user_map\<close> (non-unique lookup), and the table \<open>music\<close> of keyspace
  \<open>TestRouter\<close>. The collaborators of \<open>demoEnv\<close> answer every call in a fixed,
  simple way: \<open>Map\<close> sends a string to itself as keyspace id (so the empty string to
  \<open>MinKey\<close>), the functional generator returns 0, the lookup generator 7, the subquery
  \<open>''sub''\<close> returns three rows of one column, every other dispatch returns the
  empty result, and \<open>range\<close> visits the second key of a map first.
\<close>

definition userIndex :: Vindex where
  "userIndex = \<lparr>VindexName = ''user_index'', isUnique = True, isNonUnique = False,
     isFunctional = True, isLookup = False, isFunctionalGenerator = True,
     isLookupGenerator = False, isReversible = True\<rparr>"

definition musicUserMap :: Vindex where
  "musicUserMap = \<lparr>VindexName = ''music_user_map'', isUnique = True, isNonUnique = False,
     isFunctional = False, isLookup = True, isFunctionalGenerator = False,
     isLookupGenerator = True, isReversible = False\<rparr>"

definition nameUserMap :: Vindex where
  "nameUserMap = \<lparr>VindexName = ''name_user_map'', isUnique = False, isNonUnique = True,
     isFunctional = False, isLookup = True, isFunctionalGenerator = False,
     isLookupGenerator = False, isReversible = False\<rparr>"

definition demoShards :: "SrvShard list" where
  "demoShards = [\<lparr>ShardName = ''-80'', ShardRange = \<lparr>Start = [], End = ''80''\<rparr>\<rparr>,
                 \<lparr>ShardName = ''80-'', ShardRange = \<lparr>Start = ''80'', End = []\<rparr>\<rparr>]"

definition demoTable :: Table where
  "demoTable = \<lparr>Keyspace = \<lparr>Name = ''TestRouter''\<rparr>,
     ColVindexes = [\<lparr>Col = ''user_id'', Vindex = userIndex, Owned = True\<rparr>,
                    \<lparr>Col = ''id'', Vindex = musicUserMap, Owned = True\<rparr>],
     Owned = [\<lparr>Col = ''id'', Vindex = musicUserMap, Owned = True\<rparr>]\<rparr>"

definition demoPlan :: "PlanID \<Rightarrow> val \<Rightarrow> Plan" where
  "demoPlan pid vals = \<lparr>ID = pid, Table = demoTable,
     ColVindex = \<lparr>Col = ''user_id'', Vindex = userIndex, Owned = True\<rparr>,
     Rewritten = ''dml'', Subquery = ''sub'', Values = vals\<rparr>"

definition demoQuery :: "val \<Rightarrow> Query" where
  "demoQuery v = \<lparr>Sql = ''q'', BindVariables = Some [''id'' \<mapsto> v],
     TabletType = ''master'', Session = 0\<rparr>"

definition demoEnv :: "Plan \<Rightarrow> Env" where
  "demoEnv plan = \<lparr>
     GetPlan = (\<lambda>sql. plan),
     getKeyspaceShards = (\<lambda>h ks tt. Ret (ks, demoShards)),
     getShardForKeyspaceId =
       (\<lambda>shards k. case shards of [] \<Rightarrow> Fail (External ''no shard'')
                                  | s # ss \<Rightarrow> Ret (ShardName s)),
     mapExactShards =
       (\<lambda>h ks tt kr. Ret (ks, if End kr = [] then [''-80'', ''80-''] else [''-80''])),
     MapUnique = (\<lambda>h v ids. Ret (map (\<lambda>i. case i of VStr s \<Rightarrow> s | _ \<Rightarrow> ''g'') ids)),
     MapNonUnique = (\<lambda>h v ids. Ret (map (\<lambda>i. case i of VStr s \<Rightarrow> [s] | _ \<Rightarrow> []) ids)),
     CreateFunctional = (\<lambda>h v k. Ret ()),
     CreateLookup = (\<lambda>h v k ks. Ret ()),
     GenerateFunctional = (\<lambda>h v. Ret 0),
     GenerateLookup = (\<lambda>h v ks. Ret 7),
     Verify = (\<lambda>h v k ks. Ret True),
     ReverseMap = (\<lambda>h v ks. Ret (VStr ks)),
     Delete = (\<lambda>h v ids ks. Ret ()),
     Convert = (\<lambda>t raw. Ret (VBytes raw)),
     scatterExecute =
       (\<lambda>h sql b ks shards tt se.
          if sql = ''sub''
          then Ret \<lparr>Fields = [\<lparr>Type = 1\<rparr>], RowsAffected = 0, InsertId = 0,
                    Rows = [[''a''], [''b''], [''a'']]\<rparr>
          else Ret emptyResult),
     scatterExecuteMulti = (\<lambda>h sql ks shardVars tt se. Ret emptyResult),
     ListVarName = ''_vals'',
     formatKsid = (\<lambda>k. k),
     rangeChoice = (\<lambda>h. [1])\<rparr>"

text \<open>The SQL text of a dispatch.\<close>

fun dispatchedSql :: "event \<Rightarrow> string option" where
  "dispatchedSql (EvExecute sql bindVars ks shards tabletType session r) = Some sql"
| "dispatchedSql (EvExecuteMulti sql ks shardVars tabletType session r) = Some sql"
| "dispatchedSql e = None"

text \<open>The concrete router with an unsharded keyspace: the topology has one shard.\<close>

definition unshardedEnv :: "Plan \<Rightarrow> Env" where
  "unshardedEnv plan = (demoEnv plan)\<lparr>getKeyspaceShards :=
     (\<lambda>h ks tt. Ret (ks, [\<lparr>ShardName = ''0'', ShardRange = \<lparr>Start = [], End = []\<rparr>\<rparr>]))\<rparr>"

text \<open>The concrete router with a topology service that fails.\<close>

definition topoDownEnv :: "Plan \<Rightarrow> Env" where
  "topoDownEnv plan = (demoEnv plan)\<lparr>getKeyspaceShards :=
     (\<lambda>h ks tt. Fail (External ''topology down''))\<rparr>"





section \<open>Properties\<close>

subsection \<open>resolveKeys\<close>

lemma resolveKeys_loop_acc:
  "resolveKeys_loop vals bindVars (acc @ keys) =
     onRet ((@) acc) (resolveKeys_loop vals bindVars keys)"
proof (induction vals bindVars keys rule: resolveKeys_loop.induct)
  case (2 s vals bindVars keys)
  then show ?case by (cases s) (simp_all split: option.splits)
qed simp_all

lemma resolveKeys_loop_one:
  "resolveKeys_loop vals bindVars [k] = onRet ((#) k) (resolveKeys vals bindVars)"
proof -
  have "resolveKeys_loop vals bindVars ([k] @ []) =
          onRet ((@) [k]) (resolveKeys_loop vals bindVars [])"
    by (rule resolveKeys_loop_acc)
  moreover have "((@) [k]) = ((#) k)" by (rule ext) simp
  ultimately show ?thesis by (simp add: resolveKeys_def)
qed

lemma resolveKeys_Nil: "resolveKeys [] bindVars = Ret []"
  by (simp add: resolveKeys_def)

lemma resolveKeys_VStr_Nil:
  "resolveKeys (VStr [] # vals) bindVars = Crash ''slice bounds out of range''"
  by (simp add: resolveKeys_def)

lemma resolveKeys_reference:
  "resolveKeys (VStr (c # name) # vals) bindVars =
     (case bindVars name of
        None \<Rightarrow> Fail (ErrBindVarNotFound (c # name))
      | Some v \<Rightarrow> onRet ((#) v) (resolveKeys vals bindVars))"
proof -
  have "resolveKeys (VStr (c # name) # vals) bindVars =
     (case bindVars name of
        None \<Rightarrow> Fail (ErrBindVarNotFound (c # name))
      | Some v \<Rightarrow> resolveKeys_loop vals bindVars [v])"
    by (simp add: resolveKeys_def split: option.splits)
  then show ?thesis by (simp add: resolveKeys_loop_one split: option.splits)
qed

lemma resolveKeys_bytes:
  "resolveKeys (VBytes b # vals) bindVars = onRet ((#) (VStr b)) (resolveKeys vals bindVars)"
proof -
  have "resolveKeys (VBytes b # vals) bindVars = resolveKeys_loop vals bindVars [VStr b]"
    by (simp add: resolveKeys_def)
  then show ?thesis by (simp add: resolveKeys_loop_one)
qed

lemma resolveKeys_other:
  assumes "v = VNil \<or> (\<exists>n. v = VInt64 n) \<or> (\<exists>l. v = VList l)"
  shows "resolveKeys (v # vals) bindVars = onRet ((#) v) (resolveKeys vals bindVars)"
proof -
  have "resolveKeys (v # vals) bindVars = resolveKeys_loop vals bindVars [v]"
    using assms by (auto simp: resolveKeys_def)
  then show ?thesis by (simp add: resolveKeys_loop_one)
qed

lemma resolveKeys_append:
  "resolveKeys (pre @ post) bindVars =
     (case resolveKeys pre bindVars of
        Ret ks \<Rightarrow> onRet ((@) ks) (resolveKeys post bindVars)
      | Fail e \<Rightarrow> Fail e | Crash p \<Rightarrow> Crash p)"
proof (induction pre)
  case Nil
  have "onRet ((@) []) r = r" for r :: "val list res" by (cases r) simp_all
  then show ?case by (simp add: resolveKeys_Nil)
next
  case (Cons v pre)
  have comp: "onRet ((#) k) (onRet ((@) ks) r) = onRet ((@) (k # ks)) r"
    for k ks and r :: "val list res" by (cases r) simp_all
  show ?case
  proof (cases v)
    case (VStr s)
    show ?thesis
    proof (cases s)
      case Nil
      with VStr show ?thesis by (simp add: resolveKeys_VStr_Nil)
    next
      case (Cons c name)
      with VStr show ?thesis
        by (cases "resolveKeys pre bindVars")
           (simp_all add: resolveKeys_reference Cons.IH comp split: option.splits)
    qed
  next
    case (VBytes b)
    then show ?thesis
      by (cases "resolveKeys pre bindVars") (simp_all add: resolveKeys_bytes Cons.IH comp)
  next
    case VNil
    then show ?thesis
      by (cases "resolveKeys pre bindVars") (simp_all add: resolveKeys_other Cons.IH comp)
  next
    case (VInt64 n)
    then show ?thesis
      by (cases "resolveKeys pre bindVars") (simp_all add: resolveKeys_other Cons.IH comp)
  next
    case (VList l)
    then show ?thesis
      by (cases "resolveKeys pre bindVars") (simp_all add: resolveKeys_other Cons.IH comp)
  qed
qed

lemma resolveKeys_step:
  assumes "v \<noteq> VStr []"
  shows "resolveKeys (v # vals) bindVars =
     (case spec_resolved bindVars v of
        None \<Rightarrow> Fail (ErrBindVarNotFound (case v of VStr s \<Rightarrow> s | _ \<Rightarrow> []))
      | Some k \<Rightarrow> onRet ((#) k) (resolveKeys vals bindVars))"
proof (cases v)
  case (VStr s)
  with assms obtain c name where "s = c # name" by (cases s) auto
  with VStr show ?thesis by (simp add: resolveKeys_reference split: option.splits)
next
  case (VBytes b)
  then show ?thesis by (simp add: resolveKeys_bytes)
qed (simp_all add: resolveKeys_other)

text \<open>
  Claim C10. \<open>resolveKeys\<close> treats every string item of the values list as a
  bind-variable reference. Of the empty list it returns the empty list. Of a list that
  starts with a non-empty string it drops the string's first byte \<open>c\<close>, whatever it
  is, looks the rest up in the bind variables, and returns the error
  \<open>could not find bind var\<close> when it is not there, else the value found, followed by
  the keys of the rest of the list: no sentinel is validated, so a plain string literal
  is read as a reference. Of a list that starts with the empty string it panics on the
  slice \<open>val[1:]\<close>, where no error is returned. The same holds for a string item at
  any position, once the items before it have been resolved.
\<close>

theorem resolveKeys_string_items:
  "resolveKeys [] bindVars = Ret []
   \<and> resolveKeys (VStr (c # name) # vals) bindVars =
       (case bindVars name of
          None \<Rightarrow> Fail (ErrBindVarNotFound (c # name))
        | Some v \<Rightarrow> onRet ((#) v) (resolveKeys vals bindVars))
   \<and> resolveKeys (VStr [] # vals) bindVars = Crash ''slice bounds out of range''
   \<and> resolveKeys (pre @ VStr (c # name) # post) bindVars =
     (case resolveKeys pre bindVars of
        Ret ks \<Rightarrow>
          (case bindVars name of
             None \<Rightarrow> Fail (ErrBindVarNotFound (c # name))
           | Some v \<Rightarrow> onRet (\<lambda>ks'. ks @ v # ks') (resolveKeys post bindVars))
      | Fail e \<Rightarrow> Fail e | Crash p \<Rightarrow> Crash p)
   \<and> resolveKeys (pre @ VStr [] # post) bindVars =
     (case resolveKeys pre bindVars of
        Ret ks \<Rightarrow> Crash ''slice bounds out of range''
      | Fail e \<Rightarrow> Fail e | Crash p \<Rightarrow> Crash p)"
proof -
  have comp: "onRet ((@) ks) (onRet ((#) k) r) = onRet (\<lambda>ks'. ks @ k # ks') r"
    for k ks and r :: "val list res" by (cases r) simp_all
  have "resolveKeys (pre @ VStr (c # name) # post) bindVars =
     (case resolveKeys pre bindVars of
        Ret ks \<Rightarrow>
          (case bindVars name of
             None \<Rightarrow> Fail (ErrBindVarNotFound (c # name))
           | Some v \<Rightarrow> onRet (\<lambda>ks'. ks @ v # ks') (resolveKeys post bindVars))
      | Fail e \<Rightarrow> Fail e | Crash p \<Rightarrow> Crash p)"
    by (simp add: resolveKeys_append resolveKeys_reference comp
             split: res.splits option.splits)
  moreover have "resolveKeys (pre @ VStr [] # post) bindVars =
     (case resolveKeys pre bindVars of
        Ret ks \<Rightarrow> Crash ''slice bounds out of range''
      | Fail e \<Rightarrow> Fail e | Crash p \<Rightarrow> Crash p)"
    by (simp add: resolveKeys_append resolveKeys_VStr_Nil split: res.splits)
  ultimately show ?thesis
    using resolveKeys_Nil[of bindVars] resolveKeys_reference[of c name vals bindVars]
      resolveKeys_VStr_Nil[of vals bindVars]
    by simp
qed

theorem resolveKeys_string_items_witness:
  "resolveKeys [VStr ''abc''] [''bc'' \<mapsto> VInt64 1] = Ret [VInt64 1]
   \<and> resolveKeys [VStr ''abc''] Map.empty = Fail (ErrBindVarNotFound ''abc'')
   \<and> resolveKeys [VStr ''abc'', VStr []] [''bc'' \<mapsto> VInt64 1]
       = Crash ''slice bounds out of range''"
proof -
  let ?bv = "[''bc'' \<mapsto> VInt64 1]"
  note t = resolveKeys_string_items[of _ "CHR ''a''" "''bc''" "[]" "[VStr ''abc'']" "[]"]
  from t[of ?bv] have nil: "resolveKeys [] ?bv = Ret []" by blast
  from t[of ?bv] have "resolveKeys (VStr ''abc'' # []) ?bv =
       (case ?bv ''bc'' of
          None \<Rightarrow> Fail (ErrBindVarNotFound ''abc'')
        | Some v \<Rightarrow> onRet ((#) v) (resolveKeys [] ?bv))"
    by blast
  then have 1: "resolveKeys [VStr ''abc''] ?bv = Ret [VInt64 1]"
    unfolding nil by simp
  from t[of Map.empty] have "resolveKeys (VStr ''abc'' # []) Map.empty =
       (case Map.empty ''bc'' of
          None \<Rightarrow> Fail (ErrBindVarNotFound ''abc'')
        | Some v \<Rightarrow> onRet ((#) v) (resolveKeys [] Map.empty))"
    by blast
  then have 2: "resolveKeys [VStr ''abc''] Map.empty = Fail (ErrBindVarNotFound ''abc'')"
    by simp
  from t[of ?bv] have "resolveKeys ([VStr ''abc''] @ VStr [] # []) ?bv =
     (case resolveKeys [VStr ''abc''] ?bv of
        Ret ks \<Rightarrow> Crash ''slice bounds out of range''
      | Fail e \<Rightarrow> Fail e | Crash p \<Rightarrow> Crash p)"
    by blast
  then have 3: "resolveKeys [VStr ''abc'', VStr []] ?bv = Crash ''slice bounds out of range''"
    unfolding 1 by simp
  from 1 2 3 show ?thesis by blast
qed

text \<open>
  Claim C8, as amended. For every values list without an empty string item and every
  bind-variable map, \<open>resolveKeys\<close> returns either the error for a string item whose
  bind variable is missing, or a list of keys that is the values list resolved item by
  item, so of the same length and in the same order: a reference replaced by the value
  of its bind variable, a byte string by its text, any other item unchanged.
\<close>

theorem resolveKeys_preserves:
  assumes "VStr [] \<notin> set vals"
  shows "(\<exists>s. resolveKeys vals bindVars = Fail (ErrBindVarNotFound s)
              \<and> VStr s \<in> set vals \<and> bindVars (drop 1 s) = None)
       \<or> (\<exists>keys. resolveKeys vals bindVars = Ret keys
              \<and> map (spec_resolved bindVars) vals = map Some keys)"
  using assms
proof (induction vals)
  case Nil
  show ?case by (simp add: resolveKeys_Nil)
next
  case (Cons v vals)
  then have v: "v \<noteq> VStr []" and rest: "VStr [] \<notin> set vals" by auto
  note step = resolveKeys_step[OF v, of vals bindVars]
  show ?case
  proof (cases "spec_resolved bindVars v")
    case None
    then obtain s where "v = VStr s" by (cases v) auto
    with None step show ?thesis by simp
  next
    case (Some k)
    from Cons.IH[OF rest] show ?thesis
    proof
      assume "\<exists>s. resolveKeys vals bindVars = Fail (ErrBindVarNotFound s)
              \<and> VStr s \<in> set vals \<and> bindVars (drop 1 s) = None"
      then obtain s where "resolveKeys vals bindVars = Fail (ErrBindVarNotFound s)"
        "VStr s \<in> set vals" "bindVars (drop 1 s) = None" by blast
      with Some step show ?thesis by (intro disjI1 exI[of _ s]) simp
    next
      assume "\<exists>keys. resolveKeys vals bindVars = Ret keys
              \<and> map (spec_resolved bindVars) vals = map Some keys"
      then obtain keys where "resolveKeys vals bindVars = Ret keys"
        "map (spec_resolved bindVars) vals = map Some keys" by blast
      with Some step show ?thesis by (intro disjI2 exI[of _ "k # keys"]) simp
    qed
  qed
qed

theorem resolveKeys_preserves_witness:
  "VStr [] \<notin> set [VStr '':id'', VBytes ''x'', VNil]
   \<and> resolveKeys [VStr '':id'', VBytes ''x'', VNil] [''id'' \<mapsto> VInt64 1]
       = Ret [VInt64 1, VStr ''x'', VNil]"
  using resolveKeys_preserves[of "[VStr '':id'', VBytes ''x'', VNil]" "[''id'' \<mapsto> VInt64 1]"]
  by (simp add: resolveKeys_def)

text \<open>
  Claim C8 as stated covers every values list. On the list that holds one empty string
  \<open>resolveKeys\<close> returns neither an error nor a list: it panics.
\<close>

theorem resolveKeys_empty_string_panics:
  "resolveKeys [VStr []] Map.empty = Crash ''slice bounds out of range''"
  by (simp add: resolveKeys_def)

subsection \<open>The calls a statement makes\<close>

lemma andThen_pair [simp]:
  "andThen (r, st) f =
     (case r of Ret x \<Rightarrow> f x st | Fail e \<Rightarrow> (Fail e, st) | Crash p \<Rightarrow> (Crash p, st))"
  by (simp add: andThen_def split: res.splits)

lemma logged_eq:
  "logged f ev st = (f (trace st), st\<lparr>trace := trace st @ [ev (f (trace st))]\<rparr>)"
  by (simp add: logged_def Let_def)

lemmas call_defs =
  call_getKeyspaceShards_def call_mapExactShards_def call_MapUnique_def call_MapNonUnique_def
  call_Create_def call_CreateLookup_def call_Generate_def call_GenerateLookup_def
  call_Verify_def call_ReverseMap_def call_Delete_def call_Execute_def call_ExecuteMulti_def

lemma generatedValues_simps [simp]:
  "generatedValues [] = []"
  "generatedValues (e # es) =
     (case generatedValue e of None \<Rightarrow> generatedValues es | Some g \<Rightarrow> g # generatedValues es)"
  "generatedValues (xs @ ys) = generatedValues xs @ generatedValues ys"
  by (simp_all add: generatedValues_def map_filter_simps map_filter_def split: option.splits)

lemma handleNonPrimary_events:
  assumes "handleNonPrimary env key colVindex k st = (r, st')"
  shows "\<exists>evs. trace st' = trace st @ evs
           \<and> (\<forall>e\<in>set evs. \<not> isDispatch e \<and> \<not> isMapUnique e)
           \<and> nonzero (generatedValues evs) = (case r of Ret g \<Rightarrow> if g = 0 then [] else [g] | _ \<Rightarrow> [])"
  using assms
  by (auto simp: handleNonPrimary_def call_defs logged_eq nonzero_def
           split: if_splits res.splits prod.splits)

lemma nonzero_append [simp]: "nonzero (xs @ ys) = nonzero xs @ nonzero ys"
  by (simp add: nonzero_def)

lemma execInsertSharded_loop_events:
  assumes "execInsertSharded_loop env keys i colVindexes k g st = (r, st')"
  shows "\<exists>evs. trace st' = trace st @ evs
           \<and> (\<forall>e\<in>set evs. \<not> isDispatch e \<and> \<not> isMapUnique e)
           \<and> length (G g @ nonzero (generatedValues evs)) \<le> 2
           \<and> (length (G g @ nonzero (generatedValues evs)) = 2 \<longrightarrow> r = Fail ErrMoreThanOneGenerated)
           \<and> (\<forall>g'. r = Ret g' \<longrightarrow> G g @ nonzero (generatedValues evs) = G g')"
  using assms
proof (induction keys arbitrary: i g st)
  case Nil
  then show ?case by (auto simp: G_def nonzero_def)
next
  case (Cons key keys)
  show ?case
  proof (cases "i < length colVindexes")
    case False
    with Cons.prems show ?thesis by (auto simp: G_def nonzero_def)
  next
    case True
    obtain r1 st1 where h: "handleNonPrimary env key (colVindexes ! i) k st = (r1, st1)"
      by (cases "handleNonPrimary env key (colVindexes ! i) k st")
    from handleNonPrimary_events[OF h] obtain evs1 where
      t1: "trace st1 = trace st @ evs1"
      and n1: "\<forall>e\<in>set evs1. \<not> isDispatch e \<and> \<not> isMapUnique e"
      and g1: "nonzero (generatedValues evs1) =
                 (case r1 of Ret g \<Rightarrow> if g = 0 then [] else [g] | _ \<Rightarrow> [])"
      by blast
    show ?thesis
    proof (cases r1)
      case (Fail e)
      with Cons.prems True h t1 n1 g1 show ?thesis
        by (intro exI[of _ evs1]) (auto simp: G_def)
    next
      case (Crash p)
      with Cons.prems True h t1 n1 g1 show ?thesis
        by (intro exI[of _ evs1]) (auto simp: G_def)
    next
      case (Ret newgen)
      show ?thesis
      proof (cases "newgen \<noteq> 0 \<and> g \<noteq> 0")
        case True
        with Cons.prems \<open>i < length colVindexes\<close> h Ret t1 n1 g1 show ?thesis
          by (intro exI[of _ evs1]) (auto simp: G_def)
      next
        case False
        define g2 where "g2 = (if newgen \<noteq> 0 then newgen else g)"
        from False Cons.prems \<open>i < length colVindexes\<close> h Ret
        have rec: "execInsertSharded_loop env keys (Suc i) colVindexes k g2 st1 = (r, st')"
          by (auto simp: g2_def split: if_splits)
        from Cons.IH[OF rec] obtain evs2 where
          t2: "trace st' = trace st1 @ evs2"
          and n2: "\<forall>e\<in>set evs2. \<not> isDispatch e \<and> \<not> isMapUnique e"
          and l2: "length (G g2 @ nonzero (generatedValues evs2)) \<le> 2"
          and f2: "length (G g2 @ nonzero (generatedValues evs2)) = 2
                     \<longrightarrow> r = Fail ErrMoreThanOneGenerated"
          and r2: "\<forall>g'. r = Ret g' \<longrightarrow> G g2 @ nonzero (generatedValues evs2) = G g'"
          by blast
        have eq: "G g @ nonzero (generatedValues (evs1 @ evs2))
                    = G g2 @ nonzero (generatedValues evs2)"
          using False g1 Ret by (auto simp: G_def g2_def)
        show ?thesis
          using t1 t2 n1 n2 l2 f2 r2 unfolding eq[symmetric]
          by (intro exI[of _ "evs1 @ evs2"]) auto
      qed
    qed
  qed
qed


lemma handlePrimary_events:
  assumes "handlePrimary env key colVindex st = (r, st')"
  shows "\<exists>evs. trace st' = trace st @ evs
           \<and> (\<forall>e\<in>set evs. \<not> isDispatch e)
           \<and> length (nonzero (generatedValues evs)) \<le> 1
           \<and> (\<forall>k g. r = Ret (k, g) \<longrightarrow>
                 nonzero (generatedValues evs) = G g \<and> k \<noteq> MinKey
                 \<and> (\<forall>e\<in>set evs. \<not> mapsTo MinKey e) \<and> (\<exists>e\<in>set evs. mapsTo k e))
           \<and> ((\<exists>e\<in>set evs. mapsTo MinKey e) \<longrightarrow> (\<exists>vk. r = Fail (ErrCouldNotMap vk)))"
  using assms
  by (auto simp: handlePrimary_def call_defs logged_eq nonzero_def G_def
           split: if_splits res.splits prod.splits list.splits)

lemma getRouting_events:
  assumes "getRouting env keyspace tabletType k st = (r, st')"
  shows "\<exists>e. trace st' = trace st @ [e] \<and> \<not> isDispatch e \<and> \<not> isMapUnique e
           \<and> generatedValue e = None \<and> bv st' = bv st"
  using assms
  by (auto simp: getRouting_def call_defs logged_eq split: res.splits prod.splits)


lemma mapsTo_isMapUnique: "mapsTo k e \<Longrightarrow> isMapUnique e"
  by (cases e) simp_all

lemma execInsertSharded_cases:
  assumes "execInsertSharded env query plan st = (r, st')"
  shows "\<exists>evs. trace st' = trace st @ evs \<and>
     (((\<forall>e\<in>set evs. \<not> isDispatch e)
        \<and> (\<forall>res. r \<noteq> Ret res)
        \<and> length (nonzero (generatedValues evs)) \<le> 2
        \<and> (length (nonzero (generatedValues evs)) = 2 \<longrightarrow> r = Fail ErrMoreThanOneGenerated)
        \<and> ((\<exists>e\<in>set evs. mapsTo MinKey e) \<longrightarrow> (\<exists>vk. r = Fail (ErrCouldNotMap vk))))
      \<or> (\<exists>pre k ks shard res g.
            evs = pre @ [EvExecute (Rewritten plan @ dmlPostfix env k) (bv st') ks [shard]
                           (TabletType query) (Session query) res]
            \<and> (\<forall>e\<in>set pre. \<not> isDispatch e \<and> \<not> mapsTo MinKey e)
            \<and> (\<exists>e\<in>set pre. mapsTo k e)
            \<and> bv st' ksidName = Some (VStr k) \<and> k \<noteq> MinKey
            \<and> nonzero (generatedValues pre) = G g
            \<and> r = insertOutcome g res))"
proof (cases "Values plan")
  case (VList input)
  show ?thesis
  proof (cases "resolveKeys input (bv st)")
    case (Ret keys)
    show ?thesis
    proof (cases "keys = [] \<or> ColVindexes (Table plan) = []")
      case True
      with assms VList Ret show ?thesis
        by (intro exI[of _ "[]"]) (auto simp: execInsertSharded_def nonzero_def)
    next
      case False
      obtain r1 st1 where h1:
        "handlePrimary env (keys ! 0) (ColVindexes (Table plan) ! 0) st = (r1, st1)"
        by (cases "handlePrimary env (keys ! 0) (ColVindexes (Table plan) ! 0) st")
      from handlePrimary_events[OF h1] obtain evs1 where
        t1: "trace st1 = trace st @ evs1"
        and d1: "\<forall>e\<in>set evs1. \<not> isDispatch e"
        and l1: "length (nonzero (generatedValues evs1)) \<le> 1"
        and s1: "\<forall>k g. r1 = Ret (k, g) \<longrightarrow>
                 nonzero (generatedValues evs1) = G g \<and> k \<noteq> MinKey
                 \<and> (\<forall>e\<in>set evs1. \<not> mapsTo MinKey e) \<and> (\<exists>e\<in>set evs1. mapsTo k e)"
        and m1: "(\<exists>e\<in>set evs1. mapsTo MinKey e) \<longrightarrow> (\<exists>vk. r1 = Fail (ErrCouldNotMap vk))"
        by blast
      have unfold1: "execInsertSharded env query plan st =
          andThen (r1, st1)
            (\<lambda>(k, generated) st1.
               andThen (getRouting env (Name (Keyspace (Table plan))) (TabletType query) k st1)
                 (\<lambda>(ks, shard) st2.
                    andThen (execInsertSharded_loop env (drop 1 keys) 1
                               (ColVindexes (Table plan)) k generated st2)
                      (\<lambda>generated st3.
                         (let st4 = st3\<lparr>bv := (bv st3)(ksidName \<mapsto> VStr k)\<rparr>;
                              rewritten = Rewritten plan @ dmlPostfix env k
                          in andThen
                               (call_Execute env query rewritten (bv st4) ks [shard] st4)
                               (\<lambda>result st5.
                                  if generated \<noteq> 0 then
                                    (if InsertId result \<noteq> 0
                                     then (Fail ErrBothGenerated, st5)
                                     else (Ret (result\<lparr>InsertId := generated\<rparr>), st5))
                                  else (Ret result, st5))))))"
        using VList Ret False h1 by (simp add: execInsertSharded_def del: andThen_pair)
      show ?thesis
      proof (cases r1)
        case (Fail e)
        with assms unfold1 t1 d1 l1 m1 show ?thesis
          by (intro exI[of _ evs1]) auto
      next
        case (Crash p)
        with assms unfold1 t1 d1 l1 m1 show ?thesis
          by (intro exI[of _ evs1]) auto
      next
        case r1: (Ret kg)
        obtain k g where kg: "kg = (k, g)" by (cases kg)
        from s1 r1 kg have g1: "nonzero (generatedValues evs1) = G g" and k: "k \<noteq> MinKey"
          and nm1: "\<forall>e\<in>set evs1. \<not> mapsTo MinKey e"
          and mk1: "\<exists>e\<in>set evs1. mapsTo k e" by auto
        obtain r2 st2 where h2:
          "getRouting env (Name (Keyspace (Table plan))) (TabletType query) k st1 = (r2, st2)"
          by (cases "getRouting env (Name (Keyspace (Table plan))) (TabletType query) k st1")
        from getRouting_events[OF h2] obtain e2 where
          t2: "trace st2 = trace st1 @ [e2]" and d2: "\<not> isDispatch e2" "\<not> isMapUnique e2"
          and g2: "generatedValue e2 = None" by blast
        have nm2: "\<not> mapsTo MinKey e2" using d2 mapsTo_isMapUnique by blast
        show ?thesis
        proof (cases r2)
          case (Fail e)
          with assms unfold1 r1 kg h2 t1 t2 d1 d2 g1 g2 nm1 nm2 show ?thesis
            by (intro exI[of _ "evs1 @ [e2]"]) (auto simp: G_def nonzero_def)
        next
          case (Crash p)
          with assms unfold1 r1 kg h2 t1 t2 d1 d2 g1 g2 nm1 nm2 show ?thesis
            by (intro exI[of _ "evs1 @ [e2]"]) (auto simp: G_def nonzero_def)
        next
          case r2: (Ret kss)
          obtain ks shard where kss: "kss = (ks, shard)" by (cases kss)
          obtain r3 st3 where h3:
            "execInsertSharded_loop env (drop 1 keys) 1 (ColVindexes (Table plan)) k g st2
               = (r3, st3)"
            by (cases "execInsertSharded_loop env (drop 1 keys) 1 (ColVindexes (Table plan))
                         k g st2")
          from execInsertSharded_loop_events[OF h3] obtain evs3 where
            t3: "trace st3 = trace st2 @ evs3"
            and d3: "\<forall>e\<in>set evs3. \<not> isDispatch e \<and> \<not> isMapUnique e"
            and l3: "length (G g @ nonzero (generatedValues evs3)) \<le> 2"
            and f3: "length (G g @ nonzero (generatedValues evs3)) = 2
                       \<longrightarrow> r3 = Fail ErrMoreThanOneGenerated"
            and s3: "\<forall>g'. r3 = Ret g' \<longrightarrow> G g @ nonzero (generatedValues evs3) = G g'"
            by blast
          have nm3: "\<forall>e\<in>set evs3. \<not> mapsTo MinKey e"
            using d3 mapsTo_isMapUnique by blast
          have gen: "nonzero (generatedValues (evs1 @ [e2] @ evs3))
                       = G g @ nonzero (generatedValues evs3)"
            using g1 g2 by (simp add: nonzero_def)
          have tr: "trace st3 = trace st @ (evs1 @ [e2] @ evs3)"
            using t1 t2 t3 by simp
          have dd: "\<forall>e\<in>set (evs1 @ [e2] @ evs3). \<not> isDispatch e \<and> \<not> mapsTo MinKey e"
            using d1 d2 d3 nm1 nm2 nm3 by auto
          show ?thesis
          proof (cases r3)
            case (Fail e)
            with assms unfold1 r1 kg h2 r2 kss h3 tr dd l3 f3 show ?thesis
              unfolding gen[symmetric]
              by (intro exI[of _ "evs1 @ [e2] @ evs3"]) auto
          next
            case (Crash p)
            with assms unfold1 r1 kg h2 r2 kss h3 tr dd l3 f3 show ?thesis
              unfolding gen[symmetric]
              by (intro exI[of _ "evs1 @ [e2] @ evs3"]) auto
          next
            case r3: (Ret g')
            from s3 r3 have gg: "nonzero (generatedValues (evs1 @ [e2] @ evs3)) = G g'"
              using gen by simp
            define st4 where "st4 = st3\<lparr>bv := (bv st3)(ksidName \<mapsto> VStr k)\<rparr>"
            define res where "res = scatterExecute env (trace st4)
                (Rewritten plan @ dmlPostfix env k) (bv st4) ks [shard]
                (TabletType query) (Session query)"
            have fin: "r = insertOutcome g' res"
              "st' = st4\<lparr>trace := trace st4 @
                 [EvExecute (Rewritten plan @ dmlPostfix env k) (bv st4) ks [shard]
                    (TabletType query) (Session query) res]\<rparr>"
              using assms unfold1 r1 kg h2 r2 kss h3 r3
              by (auto simp: call_Execute_def logged_eq Let_def st4_def res_def
                    insertOutcome_def split: res.splits if_splits)
            show ?thesis
              apply (rule exI[of _ "(evs1 @ [e2] @ evs3) @
                 [EvExecute (Rewritten plan @ dmlPostfix env k) (bv st4) ks [shard]
                    (TabletType query) (Session query) res]"])
              apply (rule conjI)
               apply (simp add: fin tr st4_def)
              apply (rule disjI2)
              apply (rule exI[of _ "evs1 @ [e2] @ evs3"], rule exI[of _ k], rule exI[of _ ks],
                     rule exI[of _ shard], rule exI[of _ res], rule exI[of _ g'])
              using dd gg k fin mk1 apply (simp add: st4_def)
              apply blast
              done
          qed
        qed
      qed
    qed
  next
    case (Fail e)
    with assms VList show ?thesis
      by (intro exI[of _ "[]"]) (auto simp: execInsertSharded_def nonzero_def)
  next
    case (Crash p)
    with assms VList show ?thesis
      by (intro exI[of _ "[]"]) (auto simp: execInsertSharded_def nonzero_def)
  qed
qed (use assms in \<open>auto simp: execInsertSharded_def nonzero_def intro!: exI[of _ "[]"]\<close>)

lemma rangeOver_mset: "mset (rangeOver ns keys) = mset keys"
proof (induction ns arbitrary: keys)
  case Nil
  show ?case by simp
next
  case (Cons n ns)
  show ?case
  proof (cases "keys = []")
    case True
    then show ?thesis by simp
  next
    case False
    define i where "i = n mod length keys"
    have i: "i < length keys" using False by (simp add: i_def)
    have "mset keys = mset (take i keys @ keys ! i # drop (Suc i) keys)"
      using id_take_nth_drop[OF i] by simp
    also have "\<dots> = mset (keys ! i # rangeOver ns (take i keys @ drop (Suc i) keys))"
      by (simp add: Cons.IH)
    finally show ?thesis using False by (simp add: i_def Let_def)
  qed
qed

lemma rangeOver_any_order: "mset ys = mset keys \<Longrightarrow> \<exists>ns. rangeOver ns keys = ys"
proof (induction ys arbitrary: keys)
  case Nil
  then have "keys = []" by simp
  then have "rangeOver [] keys = []" by simp
  then show ?case by blast
next
  case (Cons y ys)
  from Cons.prems have "y \<in> set keys" by (metis list.set_intros(1) mset_eq_setD)
  then obtain i where i: "i < length keys" and y: "keys ! i = y"
    by (auto simp: in_set_conv_nth)
  let ?rest = "take i keys @ drop (Suc i) keys"
  have "mset keys = mset (take i keys @ keys ! i # drop (Suc i) keys)"
    using id_take_nth_drop[OF i] by simp
  with Cons.prems y have "mset ys = mset ?rest" by simp
  from Cons.IH[OF this] obtain ns where ns: "rangeOver ns ?rest = ys" by blast
  from i have ne: "keys \<noteq> []" by auto
  from i ne y ns have "rangeOver (i # ns) keys = y # ys" by (simp add: Let_def)
  then show ?case by blast
qed

lemma rangeOver_set: "set (rangeOver ns keys) = set keys"
  using rangeOver_mset[of ns keys] by (rule mset_eq_setD)

lemma rangeOver_distinct: "distinct (rangeOver ns keys) = distinct keys"
  using rangeOver_mset[of ns keys] by (rule mset_eq_imp_distinct_iff)

lemma collectKeys_keys:
  assumes "collectKeys env flds i rows keys = Ret ids" and "distinct keys"
  shows "distinct ids \<and>
         set ids = set keys \<union>
           {keyOf c |c row. row \<in> set rows \<and> Convert env (Type (flds ! i)) (row ! i) = Ret c}
         \<and> (\<forall>row\<in>set rows. i < length flds \<and> i < length row
               \<and> (\<exists>c. Convert env (Type (flds ! i)) (row ! i) = Ret c \<and> (\<forall>l. c \<noteq> VList l)))"
  using assms
proof (induction rows arbitrary: keys)
  case Nil
  then show ?case by simp
next
  case (Cons row rows)
  from Cons.prems(1) obtain c where
    b: "i < length flds" "i < length row"
    and c: "Convert env (Type (flds ! i)) (row ! i) = Ret c" "\<forall>l. c \<noteq> VList l"
    and rec: "collectKeys env flds i rows (addKey (keyOf c) keys) = Ret ids"
    by (auto split: if_splits res.splits val.splits)
  have "distinct (addKey (keyOf c) keys)" using Cons.prems(2) by (simp add: addKey_def)
  from Cons.IH[OF rec this] b c show ?case by (auto simp: addKey_def)
qed

lemma collectKeys_columnIds:
  assumes "collectKeys env (Fields result) j (Rows result) [] = Ret keys"
  shows "columnIds env result j (rangeOver ns keys)"
  using collectKeys_keys[OF assms]
  by (simp add: columnIds_def rangeOver_set rangeOver_distinct)

lemma deleteVindexEntries_loop_events:
  assumes "deleteVindexEntries_loop env result k i owned st = (r, st')"
  shows "bv st' = bv st \<and>
     (\<exists>dels. trace st' = trace st @ dels \<and> (\<forall>e\<in>set dels. isDelete e)
        \<and> (r = Ret () \<longrightarrow>
              (\<exists>idss. length idss = length owned
                 \<and> dels = map (\<lambda>(cv, ids). EvDelete (Vindex cv) ids k (Ret ())) (zip owned idss)
                 \<and> (\<forall>n<length owned. columnIds env result (i + n) (idss ! n)))))"
  using assms
proof (induction owned arbitrary: i st)
  case Nil
  then show ?case by simp
next
  case (Cons colVindex owned)
  show ?case
  proof (cases "collectKeys env (Fields result) i (Rows result) []")
    case (Ret keys)
    note ck = this
    show ?thesis
    proof (cases "isFunctional (Vindex colVindex) \<or> isLookup (Vindex colVindex)")
      case False
      with Cons.prems Ret show ?thesis by auto
    next
      case True
      define ids where "ids = rangeOver (rangeChoice env (trace st)) keys"
      define u where "u = Delete env (trace st) (Vindex colVindex) ids k"
      define st1 where
        "st1 = st\<lparr>trace := trace st @ [EvDelete (Vindex colVindex) ids k u]\<rparr>"
      have good: "columnIds env result i ids"
        unfolding ids_def by (rule collectKeys_columnIds[OF ck])
      show ?thesis
      proof (cases u)
        case (Ret x)
        with Cons.prems True ck
        have rec: "deleteVindexEntries_loop env result k (Suc i) owned st1 = (r, st')"
          by (auto simp: call_Delete_def logged_eq u_def st1_def ids_def)
        from Cons.IH[OF rec] obtain dels where
          b: "bv st' = bv st1" and t: "trace st' = trace st1 @ dels"
          and d: "\<forall>e\<in>set dels. isDelete e"
          and s: "r = Ret () \<longrightarrow>
              (\<exists>idss. length idss = length owned
                 \<and> dels = map (\<lambda>(cv, ids). EvDelete (Vindex cv) ids k (Ret ())) (zip owned idss)
                 \<and> (\<forall>n<length owned. columnIds env result (Suc i + n) (idss ! n)))"
          by blast
        have s': "\<exists>idss. length idss = length (colVindex # owned)
                 \<and> EvDelete (Vindex colVindex) ids k u # dels =
                     map (\<lambda>(cv, ids). EvDelete (Vindex cv) ids k (Ret ()))
                       (zip (colVindex # owned) idss)
                 \<and> (\<forall>n<length (colVindex # owned). columnIds env result (i + n) (idss ! n))"
          if "r = Ret ()"
        proof -
          from s that obtain idss where
            l: "length idss = length owned"
            and e: "dels = map (\<lambda>(cv, ids). EvDelete (Vindex cv) ids k (Ret ()))
                             (zip owned idss)"
            and g: "\<forall>n<length owned. columnIds env result (Suc i + n) (idss ! n)"
            by blast
          have "\<forall>n<length (colVindex # owned). columnIds env result (i + n) ((ids # idss) ! n)"
          proof (intro allI impI)
            fix n assume "n < length (colVindex # owned)"
            then show "columnIds env result (i + n) ((ids # idss) ! n)"
              using good g by (cases n) auto
          qed
          with l e Ret show ?thesis by (intro exI[of _ "ids # idss"]) simp
        qed
        show ?thesis
          using b t d s'
          by (intro conjI exI[of _ "EvDelete (Vindex colVindex) ids k u # dels"])
             (auto simp: st1_def)
      next
        case (Fail e)
        with Cons.prems True ck
        show ?thesis
          by (intro conjI exI[of _ "[EvDelete (Vindex colVindex) ids k u]"])
             (auto simp: call_Delete_def logged_eq u_def ids_def)
      next
        case (Crash p)
        with Cons.prems True ck
        show ?thesis
          by (intro conjI exI[of _ "[EvDelete (Vindex colVindex) ids k u]"])
             (auto simp: call_Delete_def logged_eq u_def ids_def)
      qed
    qed
  next
    case (Fail e)
    with Cons.prems show ?thesis by auto
  next
    case (Crash p)
    with Cons.prems show ?thesis by auto
  qed
qed

lemma deleteVindexEntries_events:
  assumes "deleteVindexEntries env query plan ks shard k st = (r, st')"
  shows "bv st' = bv st \<and>
     (\<exists>sub dels. trace st' = trace st @
           EvExecute (Subquery plan) (bv st) ks [shard] (TabletType query) (Session query) sub
             # dels
        \<and> (\<forall>e\<in>set dels. isDelete e)
        \<and> (r = Ret () \<longrightarrow>
              (\<exists>result. sub = Ret result \<and> protocolDeletes env plan result k dels)))"
proof -
  define sub where "sub = scatterExecute env (trace st) (Subquery plan) (bv st) ks [shard]
      (TabletType query) (Session query)"
  define st1 where "st1 = st\<lparr>trace := trace st @
      [EvExecute (Subquery plan) (bv st) ks [shard] (TabletType query) (Session query) sub]\<rparr>"
  show ?thesis
  proof (cases sub)
    case (Fail e)
    with assms show ?thesis
      by (auto simp: deleteVindexEntries_def call_Execute_def logged_eq sub_def)
  next
    case (Crash p)
    with assms show ?thesis
      by (auto simp: deleteVindexEntries_def call_Execute_def logged_eq sub_def)
  next
    case (Ret result)
    show ?thesis
    proof (cases "Rows result = []")
      case True
      with assms Ret show ?thesis
        by (auto simp: deleteVindexEntries_def call_Execute_def logged_eq sub_def
              protocolDeletes_def)
    next
      case False
      show ?thesis
      proof (cases "length (Rows result ! 0) \<noteq> length (Table.Owned (Table plan))")
        case True
        with assms Ret False show ?thesis
          by (auto simp: deleteVindexEntries_def call_Execute_def logged_eq sub_def)
      next
        case w: False
        with assms Ret False have rec:
          "deleteVindexEntries_loop env result k 0 (Table.Owned (Table plan)) st1 = (r, st')"
          by (auto simp: deleteVindexEntries_def call_Execute_def logged_eq sub_def st1_def)
        from deleteVindexEntries_loop_events[OF rec] obtain dels where
          "bv st' = bv st1" "trace st' = trace st1 @ dels" "\<forall>e\<in>set dels. isDelete e"
          "r = Ret () \<longrightarrow>
              (\<exists>idss. length idss = length (Table.Owned (Table plan))
                 \<and> dels = map (\<lambda>(cv, ids). EvDelete (Vindex cv) ids k (Ret ()))
                            (zip (Table.Owned (Table plan)) idss)
                 \<and> (\<forall>n<length (Table.Owned (Table plan)).
                       columnIds env result (0 + n) (idss ! n)))"
          by blast
        with Ret False show ?thesis
          by (intro conjI exI[of _ sub] exI[of _ dels])
             (auto simp: st1_def protocolDeletes_def)
      qed
    qed
  qed
qed

lemma resolveSingleShard_events:
  assumes "resolveSingleShard env query key plan st = (r, st')"
  shows "bv st' = bv st \<and>
     (\<exists>pre. trace st' = trace st @ pre
        \<and> (\<forall>e\<in>set pre. \<not> isDispatch e \<and> \<not> isDelete e)
        \<and> ((\<exists>v ids. EvMapUnique v ids (Ret [MinKey]) \<in> set pre)
              \<longrightarrow> r = Ret ([], [], MinKey))
        \<and> (\<forall>ks shard k. r = Ret (ks, shard, k) \<longrightarrow>
              EvMapUnique (Vindex (ColVindex plan)) [key] (Ret [k]) \<in> set pre))"
  using assms
  by (auto simp: resolveSingleShard_def call_defs logged_eq Let_def length_Suc_conv
           split: if_splits res.splits prod.splits list.splits)

lemma mapsOnlyTo_cases:
  "mapsOnlyTo k e \<longleftrightarrow> (\<exists>v ids. e = EvMapUnique v ids (Ret [k]))"
  by (cases "(k, e)" rule: mapsOnlyTo.cases) auto

lemma mapsOnlyTo_not_others:
  "isDelete e \<Longrightarrow> \<not> mapsOnlyTo k e" "isDispatch e \<Longrightarrow> \<not> mapsOnlyTo k e"
  by (cases e; simp)+

lemma execUpdateEqual_cases:
  assumes "execUpdateEqual env query plan st = (r, st')"
  shows "\<exists>pre. (\<forall>e\<in>set pre. \<not> isDispatch e \<and> \<not> isDelete e) \<and>
     ((trace st' = trace st @ pre \<and> bv st' = bv st
         \<and> (if \<exists>e\<in>set pre. mapsOnlyTo MinKey e then r = Ret emptyResult
             else \<forall>res. r \<noteq> Ret res))
      \<or> (\<exists>k ks shard. k \<noteq> MinKey \<and> (\<exists>e\<in>set pre. mapsOnlyTo k e)
            \<and> (\<forall>e\<in>set pre. \<not> mapsOnlyTo MinKey e)
            \<and> trace st' = trace st @ pre @
                 [EvExecute (Rewritten plan @ dmlPostfix env k) (bv st') ks [shard]
                    (TabletType query) (Session query) r]
            \<and> bv st' = (bv st)(ksidName \<mapsto> VStr k)))"
proof (cases "resolveKeys [Values plan] (bv st)")
  case (Ret keys)
  obtain r1 st1 where h1: "resolveSingleShard env query (keys ! 0) plan st = (r1, st1)"
    by (cases "resolveSingleShard env query (keys ! 0) plan st")
  from resolveSingleShard_events[OF h1] obtain pre where
    b1: "bv st1 = bv st" and t1: "trace st1 = trace st @ pre"
    and d1: "\<forall>e\<in>set pre. \<not> isDispatch e \<and> \<not> isDelete e"
    and m1: "(\<exists>v ids. EvMapUnique v ids (Ret [MinKey]) \<in> set pre)
               \<longrightarrow> r1 = Ret ([], [], MinKey)"
    and k1: "\<forall>ks shard k. r1 = Ret (ks, shard, k) \<longrightarrow>
               EvMapUnique (Vindex (ColVindex plan)) [keys ! 0] (Ret [k]) \<in> set pre"
    by blast
  have min: "(\<exists>e\<in>set pre. mapsOnlyTo MinKey e) \<longrightarrow> r1 = Ret ([], [], MinKey)"
    using m1 by (auto simp: mapsOnlyTo_cases)
  have unfold: "execUpdateEqual env query plan st =
      andThen (r1, st1)
        (\<lambda>(ks, shard, k) st1.
           if k = MinKey then (Ret emptyResult, st1)
           else
             (let st2 = st1\<lparr>bv := (bv st1)(ksidName \<mapsto> VStr k)\<rparr>;
                  rewritten = Rewritten plan @ dmlPostfix env k
              in call_Execute env query rewritten (bv st2) ks [shard] st2))"
    using Ret h1 by (simp add: execUpdateEqual_def del: andThen_pair)
  show ?thesis
  proof (cases r1)
    case (Fail e)
    with assms unfold b1 t1 d1 min show ?thesis
      by (intro exI[of _ pre]) auto
  next
    case (Crash p)
    with assms unfold b1 t1 d1 min show ?thesis
      by (intro exI[of _ pre]) auto
  next
    case r1: (Ret x)
    obtain ks shard k where x: "x = (ks, shard, k)" by (cases x)
    from k1 r1 x have ev: "EvMapUnique (Vindex (ColVindex plan)) [keys ! 0] (Ret [k]) \<in> set pre"
      by simp
    then have mk: "\<exists>e\<in>set pre. mapsOnlyTo k e"
      by (auto simp: mapsOnlyTo_cases)
    show ?thesis
    proof (cases "k = MinKey")
      case True
      with assms unfold r1 x b1 t1 d1 mk show ?thesis
        by (intro exI[of _ pre]) auto
    next
      case False
      with min r1 x have nomin: "\<forall>e\<in>set pre. \<not> mapsOnlyTo MinKey e" by auto
      from assms unfold r1 x False
      have "st' = st1\<lparr>bv := (bv st1)(ksidName \<mapsto> VStr k),
                      trace := trace st1 @
                        [EvExecute (Rewritten plan @ dmlPostfix env k)
                           ((bv st1)(ksidName \<mapsto> VStr k)) ks [shard]
                           (TabletType query) (Session query) r]\<rparr>"
        by (auto simp: call_Execute_def logged_eq Let_def)
      with False b1 t1 d1 mk nomin show ?thesis
        by (intro exI[of _ pre] conjI disjI2 exI[of _ k] exI[of _ ks] exI[of _ shard]) auto
    qed
  qed
next
  case (Fail e)
  with assms show ?thesis
    by (intro exI[of _ "[]"]) (auto simp: execUpdateEqual_def)
next
  case (Crash p)
  with assms show ?thesis
    by (intro exI[of _ "[]"]) (auto simp: execUpdateEqual_def)
qed

lemma execDeleteEqual_cases:
  assumes "execDeleteEqual env query plan st = (r, st')"
  shows "\<exists>pre. (\<forall>e\<in>set pre. \<not> isDispatch e \<and> \<not> isDelete e) \<and>
     ((trace st' = trace st @ pre \<and> bv st' = bv st
         \<and> (if \<exists>e\<in>set pre. mapsOnlyTo MinKey e then r = Ret emptyResult
             else \<forall>res. r \<noteq> Ret res))
      \<or> (\<exists>ks shard sub dels. Subquery plan \<noteq> []
            \<and> (\<forall>e\<in>set pre. \<not> mapsOnlyTo MinKey e)
            \<and> trace st' = trace st @ pre @
                 EvExecute (Subquery plan) (bv st) ks [shard]
                   (TabletType query) (Session query) sub # dels
            \<and> (\<forall>e\<in>set dels. isDelete e)
            \<and> (\<forall>res. r \<noteq> Ret res) \<and> bv st' = bv st)
      \<or> (\<exists>k ks shard mid. k \<noteq> MinKey \<and> (\<exists>e\<in>set pre. mapsOnlyTo k e)
            \<and> (\<forall>e\<in>set pre. \<not> mapsOnlyTo MinKey e)
            \<and> trace st' = trace st @ pre @ mid @
                 [EvExecute (Rewritten plan @ dmlPostfix env k) (bv st') ks [shard]
                    (TabletType query) (Session query) r]
            \<and> bv st' = (bv st)(ksidName \<mapsto> VStr k)
            \<and> (if Subquery plan = [] then mid = []
                else \<exists>result dels. mid =
                  EvExecute (Subquery plan) (bv st) ks [shard]
                    (TabletType query) (Session query) (Ret result)
                    # dels
                    \<and> protocolDeletes env plan result k dels)))"
proof (cases "resolveKeys [Values plan] (bv st)")
  case (Ret keys)
  obtain r1 st1 where h1: "resolveSingleShard env query (keys ! 0) plan st = (r1, st1)"
    by (cases "resolveSingleShard env query (keys ! 0) plan st")
  from resolveSingleShard_events[OF h1] obtain pre where
    b1: "bv st1 = bv st" and t1: "trace st1 = trace st @ pre"
    and d1: "\<forall>e\<in>set pre. \<not> isDispatch e \<and> \<not> isDelete e"
    and m1: "(\<exists>v ids. EvMapUnique v ids (Ret [MinKey]) \<in> set pre)
               \<longrightarrow> r1 = Ret ([], [], MinKey)"
    and k1: "\<forall>ks shard k. r1 = Ret (ks, shard, k) \<longrightarrow>
               EvMapUnique (Vindex (ColVindex plan)) [keys ! 0] (Ret [k]) \<in> set pre"
    by blast
  have min: "(\<exists>e\<in>set pre. mapsOnlyTo MinKey e) \<longrightarrow> r1 = Ret ([], [], MinKey)"
    using m1 by (auto simp: mapsOnlyTo_cases)
  have unfold: "execDeleteEqual env query plan st =
      andThen (r1, st1)
        (\<lambda>(ks, shard, k) st1.
           if k = MinKey then (Ret emptyResult, st1)
           else
             andThen
               (if Subquery plan \<noteq> [] then deleteVindexEntries env query plan ks shard k st1
                else (Ret (), st1))
               (\<lambda>u st2.
                  (let st3 = st2\<lparr>bv := (bv st2)(ksidName \<mapsto> VStr k)\<rparr>;
                       rewritten = Rewritten plan @ dmlPostfix env k
                   in call_Execute env query rewritten (bv st3) ks [shard] st3)))"
    using Ret h1 by (simp add: execDeleteEqual_def del: andThen_pair)
  show ?thesis
  proof (cases r1)
    case (Fail e)
    with assms unfold b1 t1 d1 min show ?thesis
      by (intro exI[of _ pre]) auto
  next
    case (Crash p)
    with assms unfold b1 t1 d1 min show ?thesis
      by (intro exI[of _ pre]) auto
  next
    case r1: (Ret x)
    obtain ks shard k where x: "x = (ks, shard, k)" by (cases x)
    from k1 r1 x have ev: "EvMapUnique (Vindex (ColVindex plan)) [keys ! 0] (Ret [k]) \<in> set pre"
      by simp
    then have mk: "\<exists>e\<in>set pre. mapsOnlyTo k e"
      by (auto simp: mapsOnlyTo_cases)
    show ?thesis
    proof (cases "k = MinKey")
      case True
      with assms unfold r1 x b1 t1 d1 mk show ?thesis
        by (intro exI[of _ pre]) auto
    next
      case False
      with min r1 x have nomin: "\<forall>e\<in>set pre. \<not> mapsOnlyTo MinKey e" by auto
      obtain r2 st2 where h2:
        "(if Subquery plan \<noteq> [] then deleteVindexEntries env query plan ks shard k st1
          else (Ret (), st1)) = (r2, st2)"
        by (cases "if Subquery plan \<noteq> [] then deleteVindexEntries env query plan ks shard k st1
                   else (Ret (), st1)")
      have mid: "bv st2 = bv st \<and> (\<exists>mid. trace st2 = trace st1 @ mid
          \<and> (if Subquery plan = [] then mid = [] \<and> r2 = Ret ()
              else \<exists>sub dels. mid = EvExecute (Subquery plan) (bv st) ks [shard]
                       (TabletType query) (Session query) sub # dels
                   \<and> (\<forall>e\<in>set dels. isDelete e)
                   \<and> (r2 = Ret () \<longrightarrow>
                        (\<exists>result. sub = Ret result
                           \<and> protocolDeletes env plan result k dels))))"
      proof (cases "Subquery plan = []")
        case True
        with h2 b1 show ?thesis by auto
      next
        case False
        with h2 have "deleteVindexEntries env query plan ks shard k st1 = (r2, st2)" by simp
        from deleteVindexEntries_events[OF this] False b1 show ?thesis by auto
      qed
      then obtain mid where b2: "bv st2 = bv st" and t2: "trace st2 = trace st1 @ mid"
        and s2: "if Subquery plan = [] then mid = [] \<and> r2 = Ret ()
              else \<exists>sub dels. mid = EvExecute (Subquery plan) (bv st) ks [shard]
                       (TabletType query) (Session query) sub # dels
                   \<and> (\<forall>e\<in>set dels. isDelete e)
                   \<and> (r2 = Ret () \<longrightarrow>
                        (\<exists>result. sub = Ret result
                           \<and> protocolDeletes env plan result k dels))"
        by blast
      have unfold2: "execDeleteEqual env query plan st =
          andThen (r2, st2)
               (\<lambda>u st2.
                  (let st3 = st2\<lparr>bv := (bv st2)(ksidName \<mapsto> VStr k)\<rparr>;
                       rewritten = Rewritten plan @ dmlPostfix env k
                   in call_Execute env query rewritten (bv st3) ks [shard] st3))"
        using unfold r1 x \<open>k \<noteq> MinKey\<close> h2 by (simp add: andThen_def)
      show ?thesis
      proof (cases "r2 = Ret ()")
        case True
        with assms unfold2
        have st': "st' = st2\<lparr>bv := (bv st2)(ksidName \<mapsto> VStr k),
                      trace := trace st2 @
                        [EvExecute (Rewritten plan @ dmlPostfix env k)
                           ((bv st2)(ksidName \<mapsto> VStr k)) ks [shard]
                           (TabletType query) (Session query) r]\<rparr>"
          by (auto simp: call_Execute_def logged_eq Let_def)
        have m: "if Subquery plan = [] then mid = []
                else \<exists>result dels. mid =
                  EvExecute (Subquery plan) (bv st) ks [shard]
                    (TabletType query) (Session query) (Ret result)
                    # dels
                    \<and> protocolDeletes env plan result k dels"
          using s2 True by (auto split: if_splits)
        show ?thesis
          apply (rule exI[of _ pre], rule conjI[OF d1])
          apply (rule disjI2, rule disjI2)
          apply (rule exI[of _ k], rule exI[of _ ks], rule exI[of _ shard], rule exI[of _ mid])
          using \<open>k \<noteq> MinKey\<close> mk nomin st' t1 t2 b2 m apply simp
          done
      next
        case False
        with s2 have sq: "Subquery plan \<noteq> []" by (auto split: if_splits)
        with s2 obtain sub dels where
          mid: "mid = EvExecute (Subquery plan) (bv st) ks [shard]
                       (TabletType query) (Session query) sub # dels"
          and dd: "\<forall>e\<in>set dels. isDelete e" by auto
        from False assms unfold2 have rr: "\<forall>res. r \<noteq> Ret res" "st' = st2"
          by (cases r2; auto)+
        show ?thesis
          apply (rule exI[of _ pre], rule conjI[OF d1])
          apply (rule disjI2, rule disjI1)
          apply (rule exI[of _ ks], rule exI[of _ shard], rule exI[of _ sub],
                 rule exI[of _ dels])
          using sq nomin rr t1 t2 b2 mid dd apply simp
          done
      qed
    qed
  qed
next
  case (Fail e)
  with assms show ?thesis
    by (intro exI[of _ "[]"]) (auto simp: execDeleteEqual_def)
next
  case (Crash p)
  with assms show ?thesis
    by (intro exI[of _ "[]"]) (auto simp: execDeleteEqual_def)
qed

subsection \<open>Execute and its arms\<close>

lemma initState_simps [simp]:
  "trace (initState query) = []"
  "bv (initState query) = (case BindVariables query of None \<Rightarrow> Map.empty | Some b \<Rightarrow> b)"
  by (simp_all add: initState_def)

lemma Execute_arms:
  "ID (GetPlan env (Sql query)) = UpdateEqual \<Longrightarrow>
     Execute env query = execUpdateEqual env query (GetPlan env (Sql query)) (initState query)"
  "ID (GetPlan env (Sql query)) = DeleteEqual \<Longrightarrow>
     Execute env query = execDeleteEqual env query (GetPlan env (Sql query)) (initState query)"
  "ID (GetPlan env (Sql query)) = InsertSharded \<Longrightarrow>
     Execute env query = execInsertSharded env query (GetPlan env (Sql query)) (initState query)"
  "ID (GetPlan env (Sql query)) = SelectEqual \<Longrightarrow>
     Execute env query = execSelectEqual env query (GetPlan env (Sql query)) (initState query)"
  "ID (GetPlan env (Sql query)) = SelectIN \<Longrightarrow>
     Execute env query = execSelectIN env query (GetPlan env (Sql query)) (initState query)"
  "ID (GetPlan env (Sql query)) = SelectKeyrange \<Longrightarrow>
     Execute env query = execSelectKeyrange env query (GetPlan env (Sql query)) (initState query)"
  by (simp_all add: Execute_def Let_def)

text \<open>What evaluating a statement on the concrete router unfolds.\<close>

lemmas demo_defs =
  demoEnv_def demoPlan_def demoQuery_def demoTable_def demoShards_def
  userIndex_def musicUserMap_def nameUserMap_def emptyResult_def MinKey_def ksidName_def

lemmas exec_defs =
  Execute_def initState_def execUnsharded_def execSelectEqual_def execSelectIN_def
  execSelectKeyrange_def execSelectScatter_def execUpdateEqual_def execDeleteEqual_def
  execInsertSharded_def resolveKeys_def resolveShards_def resolveSingleShard_def getRouting_def
  getKeyRange_def deleteVindexEntries_def handlePrimary_def handleNonPrimary_def
  shardVarsOf_def routing_Shards_def dmlPostfix_def addKey_def call_defs logged_eq Let_def

subsection \<open>Claims\<close>

text \<open>
  Claim C9. In a SelectKeyrange execution whose values resolve to the two keys \<open>a\<close> and
  \<open>b\<close>, the router asks the topology for the shards of the key range that starts at
  \<open>a\<close> and ends at \<open>b\<close>. If the answer is exactly one shard, the rewritten query is
  dispatched to it and the scatter executor's result is returned; if it is no shard or
  more than one, nothing is dispatched and the error
  \<open>keyrange must match exactly one shard\<close> (followed by the keys) is returned.
\<close>

theorem keyrange_exactly_one_shard:
  assumes "ID plan = SelectKeyrange" and "plan = GetPlan env (Sql query)"
    and "Values plan = VList input"
    and "resolveKeys input (bv (initState query)) = Ret [VStr a, VStr b]"
    and "mapExactShards env [] (Name (Keyspace (Table plan))) (TabletType query)
           \<lparr>Start = a, End = b\<rparr> = Ret (ks, shards)"
  shows "trace (snd (Execute env query)) =
           (if length shards = 1
            then [EvMapExactShards (Name (Keyspace (Table plan))) (TabletType query)
                    \<lparr>Start = a, End = b\<rparr> (Ret (ks, shards)),
                  EvExecute (Rewritten plan) (bv (initState query)) ks shards
                    (TabletType query) (Session query) (fst (Execute env query))]
            else [EvMapExactShards (Name (Keyspace (Table plan))) (TabletType query)
                    \<lparr>Start = a, End = b\<rparr> (Ret (ks, shards))])
       \<and> (length shards \<noteq> 1 \<longrightarrow>
             fst (Execute env query) = Fail (ErrKeyrangeOneShard [VStr a, VStr b]))
       \<and> errorFormat (ErrKeyrangeOneShard [VStr a, VStr b]) =
             ''keyrange must match exactly one shard: %+v''"
proof -
  have kr: "getKeyRange [VStr a, VStr b] = Ret \<lparr>Start = a, End = b\<rparr>"
    by (simp add: getKeyRange_def)
  have ex: "Execute env query = execSelectKeyrange env query plan (initState query)"
    using assms(1,2) by (simp add: Execute_arms)
  show ?thesis
    unfolding ex using assms(3,4,5) kr
    by (simp add: execSelectKeyrange_def call_mapExactShards_def call_Execute_def logged_eq)
qed

theorem keyrange_exactly_one_shard_witness:
  "fst (Execute (demoEnv (demoPlan SelectKeyrange (VList [VBytes ''40'', VBytes ''80''])))
          (demoQuery VNil)) = Ret emptyResult
   \<and> map isDispatch (trace (snd
         (Execute (demoEnv (demoPlan SelectKeyrange (VList [VBytes ''40'', VBytes ''80''])))
            (demoQuery VNil)))) = [False, True]
   \<and> fst (Execute (demoEnv (demoPlan SelectKeyrange (VList [VBytes ''40'', VBytes []])))
          (demoQuery VNil)) = Fail (ErrKeyrangeOneShard [VStr ''40'', VStr []])
   \<and> map isDispatch (trace (snd
         (Execute (demoEnv (demoPlan SelectKeyrange (VList [VBytes ''40'', VBytes []])))
            (demoQuery VNil)))) = [False]"
proof -
  let ?p1 = "demoPlan SelectKeyrange (VList [VBytes ''40'', VBytes ''80''])"
  let ?p2 = "demoPlan SelectKeyrange (VList [VBytes ''40'', VBytes []])"
  have one: "trace (snd (Execute (demoEnv ?p1) (demoQuery VNil))) =
      [EvMapExactShards ''TestRouter'' ''master'' \<lparr>Start = ''40'', End = ''80''\<rparr>
         (Ret (''TestRouter'', [''-80''])),
       EvExecute ''dml'' [''id'' \<mapsto> VNil] ''TestRouter'' [''-80''] ''master'' 0
         (fst (Execute (demoEnv ?p1) (demoQuery VNil)))]"
    using keyrange_exactly_one_shard[of ?p1 "demoEnv ?p1" "demoQuery VNil"
        "[VBytes ''40'', VBytes ''80'']" "''40''" "''80''" "''TestRouter''" "[''-80'']"]
    by (simp add: demo_defs resolveKeys_def initState_def)
  have two: "fst (Execute (demoEnv ?p2) (demoQuery VNil))
               = Fail (ErrKeyrangeOneShard [VStr ''40'', VStr []])
           \<and> trace (snd (Execute (demoEnv ?p2) (demoQuery VNil))) =
      [EvMapExactShards ''TestRouter'' ''master'' \<lparr>Start = ''40'', End = []\<rparr>
         (Ret (''TestRouter'', [''-80'', ''80-'']))]"
    using keyrange_exactly_one_shard[of ?p2 "demoEnv ?p2" "demoQuery VNil"
        "[VBytes ''40'', VBytes []]" "''40''" "[]" "''TestRouter''" "[''-80'', ''80-'']"]
    by (simp add: demo_defs resolveKeys_def initState_def)
  have r1: "fst (Execute (demoEnv ?p1) (demoQuery VNil)) = Ret emptyResult"
    by (simp add: exec_defs demo_defs)
  show ?thesis using one two r1 by simp
qed

lemma protocolDeletes_isDelete:
  "protocolDeletes env plan result k dels \<Longrightarrow> e \<in> set dels \<Longrightarrow> isDelete e"
  by (auto simp: protocolDeletes_def in_set_zip split: if_splits)

text \<open>
  Claim C3. In an UpdateEqual or DeleteEqual execution whose primary vindex maps the
  resolved key to \<open>MinKey\<close> (the statement's log holds a \<open>Map\<close> call that returned
  \<open>MinKey\<close> alone), \<open>Execute\<close> returns the empty result without error, leaves the
  bind variables as they were (so it writes no \<open>keyspace_id\<close>), and the statement
  calls neither a vindex \<open>Delete\<close> nor the scatter executor.
\<close>

theorem minkey_dml_is_noop:
  assumes "ID (GetPlan env (Sql query)) = UpdateEqual
           \<or> ID (GetPlan env (Sql query)) = DeleteEqual"
    and "\<exists>e\<in>set (trace (snd (Execute env query))). mapsOnlyTo MinKey e"
  shows "fst (Execute env query) = Ret emptyResult
       \<and> bv (snd (Execute env query)) = bv (initState query)
       \<and> (\<forall>e\<in>set (trace (snd (Execute env query))). \<not> isDispatch e \<and> \<not> isDelete e)"
proof -
  obtain r st' where ex: "Execute env query = (r, st')" by (cases "Execute env query")
  from assms(2) ex obtain m where m: "m \<in> set (trace st')" "mapsOnlyTo MinKey m" by auto
  then have nd: "\<not> isDispatch m" "\<not> isDelete m"
    using mapsOnlyTo_not_others by blast+
  have "r = Ret emptyResult \<and> bv st' = bv (initState query)
        \<and> (\<forall>e\<in>set (trace st'). \<not> isDispatch e \<and> \<not> isDelete e)"
    using assms(1)
  proof
    assume "ID (GetPlan env (Sql query)) = UpdateEqual"
    with ex have
      "execUpdateEqual env query (GetPlan env (Sql query)) (initState query) = (r, st')"
      by (simp add: Execute_arms)
    from execUpdateEqual_cases[OF this] obtain pre where
      d: "\<forall>e\<in>set pre. \<not> isDispatch e \<and> \<not> isDelete e"
      and c: "(trace st' = trace (initState query) @ pre \<and> bv st' = bv (initState query)
         \<and> (if \<exists>e\<in>set pre. mapsOnlyTo MinKey e then r = Ret emptyResult
             else \<forall>res. r \<noteq> Ret res))
      \<or> (\<exists>k ks shard. k \<noteq> MinKey \<and> (\<exists>e\<in>set pre. mapsOnlyTo k e)
            \<and> (\<forall>e\<in>set pre. \<not> mapsOnlyTo MinKey e)
            \<and> trace st' = trace (initState query) @ pre @
                 [EvExecute (Rewritten (GetPlan env (Sql query)) @ dmlPostfix env k) (bv st')
                    ks [shard] (TabletType query) (Session query) r]
            \<and> bv st' = (bv (initState query))(ksidName \<mapsto> VStr k))"
      by blast
    from c show ?thesis
    proof
      assume a: "trace st' = trace (initState query) @ pre \<and> bv st' = bv (initState query)
         \<and> (if \<exists>e\<in>set pre. mapsOnlyTo MinKey e then r = Ret emptyResult
             else \<forall>res. r \<noteq> Ret res)"
      then have "trace st' = pre" by simp
      with m have "\<exists>e\<in>set pre. mapsOnlyTo MinKey e" by blast
      with a d \<open>trace st' = pre\<close> show ?thesis by simp
    next
      assume "\<exists>k ks shard. k \<noteq> MinKey \<and> (\<exists>e\<in>set pre. mapsOnlyTo k e)
            \<and> (\<forall>e\<in>set pre. \<not> mapsOnlyTo MinKey e)
            \<and> trace st' = trace (initState query) @ pre @
                 [EvExecute (Rewritten (GetPlan env (Sql query)) @ dmlPostfix env k) (bv st')
                    ks [shard] (TabletType query) (Session query) r]
            \<and> bv st' = (bv (initState query))(ksidName \<mapsto> VStr k)"
      then obtain k ks shard where
        n: "\<forall>e\<in>set pre. \<not> mapsOnlyTo MinKey e"
        and t: "trace st' = pre @
                 [EvExecute (Rewritten (GetPlan env (Sql query)) @ dmlPostfix env k) (bv st')
                    ks [shard] (TabletType query) (Session query) r]"
        by auto
      from m(1) t have "m \<in> set pre \<or> isDispatch m" by auto
      with n m(2) nd show ?thesis by blast
    qed
  next
    assume "ID (GetPlan env (Sql query)) = DeleteEqual"
    with ex have
      "execDeleteEqual env query (GetPlan env (Sql query)) (initState query) = (r, st')"
      by (simp add: Execute_arms)
    from execDeleteEqual_cases[OF this] obtain pre where
      d: "\<forall>e\<in>set pre. \<not> isDispatch e \<and> \<not> isDelete e"
      and c: "(trace st' = trace (initState query) @ pre \<and> bv st' = bv (initState query)
         \<and> (if \<exists>e\<in>set pre. mapsOnlyTo MinKey e then r = Ret emptyResult
             else \<forall>res. r \<noteq> Ret res))
      \<or> (\<exists>ks shard sub dels. Subquery (GetPlan env (Sql query)) \<noteq> []
            \<and> (\<forall>e\<in>set pre. \<not> mapsOnlyTo MinKey e)
            \<and> trace st' = trace (initState query) @ pre @
                 EvExecute (Subquery (GetPlan env (Sql query))) (bv (initState query)) ks [shard]
                   (TabletType query) (Session query) sub # dels
            \<and> (\<forall>e\<in>set dels. isDelete e)
            \<and> (\<forall>res. r \<noteq> Ret res) \<and> bv st' = bv (initState query))
      \<or> (\<exists>k ks shard mid. k \<noteq> MinKey \<and> (\<exists>e\<in>set pre. mapsOnlyTo k e)
            \<and> (\<forall>e\<in>set pre. \<not> mapsOnlyTo MinKey e)
            \<and> trace st' = trace (initState query) @ pre @ mid @
                 [EvExecute (Rewritten (GetPlan env (Sql query)) @ dmlPostfix env k) (bv st')
                    ks [shard] (TabletType query) (Session query) r]
            \<and> bv st' = (bv (initState query))(ksidName \<mapsto> VStr k)
            \<and> (if Subquery (GetPlan env (Sql query)) = [] then mid = []
                else \<exists>result dels. mid =
                  EvExecute (Subquery (GetPlan env (Sql query))) (bv (initState query))
                    ks [shard] (TabletType query) (Session query) (Ret result)
                    # dels
                    \<and> protocolDeletes env (GetPlan env (Sql query)) result k dels))"
      by blast
    from c show ?thesis
    proof (elim disjE)
      assume a: "trace st' = trace (initState query) @ pre \<and> bv st' = bv (initState query)
         \<and> (if \<exists>e\<in>set pre. mapsOnlyTo MinKey e then r = Ret emptyResult
             else \<forall>res. r \<noteq> Ret res)"
      then have "trace st' = pre" by simp
      with m have "\<exists>e\<in>set pre. mapsOnlyTo MinKey e" by blast
      with a d \<open>trace st' = pre\<close> show ?thesis by simp
    next
      assume "\<exists>ks shard sub dels. Subquery (GetPlan env (Sql query)) \<noteq> []
            \<and> (\<forall>e\<in>set pre. \<not> mapsOnlyTo MinKey e)
            \<and> trace st' = trace (initState query) @ pre @
                 EvExecute (Subquery (GetPlan env (Sql query))) (bv (initState query)) ks [shard]
                   (TabletType query) (Session query) sub # dels
            \<and> (\<forall>e\<in>set dels. isDelete e)
            \<and> (\<forall>res. r \<noteq> Ret res) \<and> bv st' = bv (initState query)"
      then obtain ks shard sub dels where
        n: "\<forall>e\<in>set pre. \<not> mapsOnlyTo MinKey e"
        and t: "trace st' = pre @
                 EvExecute (Subquery (GetPlan env (Sql query))) (bv (initState query)) ks [shard]
                   (TabletType query) (Session query) sub # dels"
        and dd: "\<forall>e\<in>set dels. isDelete e"
        by auto
      from m(1) t dd have "m \<in> set pre \<or> isDispatch m \<or> isDelete m" by auto
      with n m(2) nd show ?thesis by blast
    next
      assume "\<exists>k ks shard mid. k \<noteq> MinKey \<and> (\<exists>e\<in>set pre. mapsOnlyTo k e)
            \<and> (\<forall>e\<in>set pre. \<not> mapsOnlyTo MinKey e)
            \<and> trace st' = trace (initState query) @ pre @ mid @
                 [EvExecute (Rewritten (GetPlan env (Sql query)) @ dmlPostfix env k) (bv st')
                    ks [shard] (TabletType query) (Session query) r]
            \<and> bv st' = (bv (initState query))(ksidName \<mapsto> VStr k)
            \<and> (if Subquery (GetPlan env (Sql query)) = [] then mid = []
                else \<exists>result dels. mid =
                  EvExecute (Subquery (GetPlan env (Sql query))) (bv (initState query))
                    ks [shard] (TabletType query) (Session query) (Ret result)
                    # dels
                    \<and> protocolDeletes env (GetPlan env (Sql query)) result k dels)"
      then obtain k ks shard mid where
        n: "\<forall>e\<in>set pre. \<not> mapsOnlyTo MinKey e"
        and t: "trace st' = pre @ mid @
                 [EvExecute (Rewritten (GetPlan env (Sql query)) @ dmlPostfix env k) (bv st')
                    ks [shard] (TabletType query) (Session query) r]"
        and md: "if Subquery (GetPlan env (Sql query)) = [] then mid = []
                else \<exists>result dels. mid =
                  EvExecute (Subquery (GetPlan env (Sql query))) (bv (initState query))
                    ks [shard] (TabletType query) (Session query) (Ret result)
                    # dels
                    \<and> protocolDeletes env (GetPlan env (Sql query)) result k dels"
        by auto
      have "\<forall>e\<in>set mid. isDispatch e \<or> isDelete e"
        using md protocolDeletes_isDelete by (auto split: if_splits)
      with m(1) t have "m \<in> set pre \<or> isDispatch m \<or> isDelete m" by auto
      with n m(2) nd show ?thesis by blast
    qed
  qed
  with ex show ?thesis by simp
qed


theorem minkey_dml_is_noop_witness:
  "fst (Execute (demoEnv (demoPlan UpdateEqual (VStr '':id''))) (demoQuery (VStr [])))
     = Ret emptyResult
   \<and> bv (snd (Execute (demoEnv (demoPlan DeleteEqual (VStr '':id''))) (demoQuery (VStr []))))
       ksidName = None
   \<and> map isDispatch (trace (snd
        (Execute (demoEnv (demoPlan DeleteEqual (VStr '':id''))) (demoQuery (VStr [])))))
       = [False, False]"
proof -
  let ?u = "demoPlan UpdateEqual (VStr '':id'')"
  let ?d = "demoPlan DeleteEqual (VStr '':id'')"
  have tu: "trace (snd (Execute (demoEnv ?u) (demoQuery (VStr [])))) =
      [EvGetKeyspaceShards ''TestRouter'' ''master'' (Ret (''TestRouter'', demoShards)),
       EvMapUnique userIndex [VStr []] (Ret [MinKey])]"
    by (simp add: exec_defs demo_defs)
  have td: "trace (snd (Execute (demoEnv ?d) (demoQuery (VStr [])))) =
      [EvGetKeyspaceShards ''TestRouter'' ''master'' (Ret (''TestRouter'', demoShards)),
       EvMapUnique userIndex [VStr []] (Ret [MinKey])]"
    by (simp add: exec_defs demo_defs)
  have iu: "ID (GetPlan (demoEnv ?u) (Sql (demoQuery (VStr [])))) = UpdateEqual"
    and idd: "ID (GetPlan (demoEnv ?d) (Sql (demoQuery (VStr [])))) = DeleteEqual"
    by (simp_all add: demo_defs)
  have mu: "\<exists>e\<in>set (trace (snd (Execute (demoEnv ?u) (demoQuery (VStr []))))).
              mapsOnlyTo MinKey e"
    and md: "\<exists>e\<in>set (trace (snd (Execute (demoEnv ?d) (demoQuery (VStr []))))).
              mapsOnlyTo MinKey e"
    unfolding tu td by simp_all
  have b0: "bv (initState (demoQuery (VStr []))) ksidName = None"
    by (simp add: demo_defs)
  from minkey_dml_is_noop[OF disjI1[OF iu] mu]
  have 1: "fst (Execute (demoEnv ?u) (demoQuery (VStr []))) = Ret emptyResult" by blast
  from minkey_dml_is_noop[OF disjI2[OF idd] md]
  have 2: "bv (snd (Execute (demoEnv ?d) (demoQuery (VStr [])))) = bv (initState (demoQuery (VStr [])))"
    by blast
  show ?thesis unfolding td using 1 2 b0 by simp
qed

text \<open>
  Claim C4. In an InsertSharded execution whose primary ColVindex maps the primary value
  (supplied or generated) to \<open>MinKey\<close> (the statement's log holds a \<open>Map\<close> call whose
  first keyspace id is \<open>MinKey\<close>), the router returns the error
  \<open>could not map ... to a keyspace id\<close> and the statement never calls the scatter
  executor.
\<close>

theorem insert_minkey_is_error:
  assumes "ID (GetPlan env (Sql query)) = InsertSharded"
    and "\<exists>e\<in>set (trace (snd (Execute env query))). mapsTo MinKey e"
  shows "(\<exists>vk. fst (Execute env query) = Fail (ErrCouldNotMap vk))
       \<and> (\<forall>e\<in>set (trace (snd (Execute env query))). \<not> isDispatch e)"
proof -
  obtain r st' where ex: "Execute env query = (r, st')" by (cases "Execute env query")
  from assms(2) ex have mk: "\<exists>e\<in>set (trace st'). mapsTo MinKey e" by simp
  from ex assms(1) have
    "execInsertSharded env query (GetPlan env (Sql query)) (initState query) = (r, st')"
    by (simp add: Execute_arms)
  from execInsertSharded_cases[OF this] mk
  have "(\<exists>vk. r = Fail (ErrCouldNotMap vk)) \<and> (\<forall>e\<in>set (trace st'). \<not> isDispatch e)"
    by auto
  with ex show ?thesis by simp
qed

theorem insert_minkey_is_error_witness:
  "fst (Execute (demoEnv (demoPlan InsertSharded (VList [VStr '':id'', VNil])))
          (demoQuery (VStr []))) = Fail (ErrCouldNotMap (VStr []))
   \<and> map isDispatch (trace (snd
        (Execute (demoEnv (demoPlan InsertSharded (VList [VStr '':id'', VNil])))
           (demoQuery (VStr []))))) = [False, False]"
proof -
  let ?p = "demoPlan InsertSharded (VList [VStr '':id'', VNil])"
  have t: "trace (snd (Execute (demoEnv ?p) (demoQuery (VStr [])))) =
      [EvCreate userIndex (VStr []) (Ret ()),
       EvMapUnique userIndex [VStr []] (Ret [MinKey])]"
    by (simp add: exec_defs demo_defs)
  have r: "fst (Execute (demoEnv ?p) (demoQuery (VStr []))) = Fail (ErrCouldNotMap (VStr []))"
    by (simp add: exec_defs demo_defs)
  have i: "ID (GetPlan (demoEnv ?p) (Sql (demoQuery (VStr [])))) = InsertSharded"
    by (simp add: demo_defs)
  from insert_minkey_is_error[of "demoEnv ?p" "demoQuery (VStr [])"]
  show ?thesis unfolding t using i r by simp
qed

text \<open>
  Claim C5, as amended. The source counts a generated value by its being different from
  0. In an InsertSharded execution: if two or more ColVindexes generate a non-zero value,
  the statement fails with \<open>insert generated more than one value\<close> before anything is
  dispatched; and when the insert is dispatched and the backend returns a result, then
  either no non-zero value was generated and the backend's result is returned as it is,
  or exactly one non-zero value \<open>g\<close> was generated and the backend returned insert id
  0, and the returned result carries \<open>g\<close> as its insert id, or exactly one was generated
  and the backend returned a non-zero insert id, and the statement fails with
  \<open>vindex and db generated a value each for insert\<close>. Conversely, the statement returns
  a result only when the insert was dispatched and the backend returned a result: the
  last call of the statement is then that dispatch, and there is no other.
\<close>

theorem insert_generated_id:
  assumes "ID (GetPlan env (Sql query)) = InsertSharded"
  shows "(2 \<le> length (nonzero (generatedValues (trace (snd (Execute env query))))) \<longrightarrow>
            fst (Execute env query) = Fail ErrMoreThanOneGenerated
            \<and> (\<forall>e\<in>set (trace (snd (Execute env query))). \<not> isDispatch e))
       \<and> (\<forall>sql b ks shards tt se result.
            EvExecute sql b ks shards tt se (Ret result) \<in> set (trace (snd (Execute env query)))
            \<longrightarrow>
              (nonzero (generatedValues (trace (snd (Execute env query)))) = []
                 \<and> fst (Execute env query) = Ret result)
            \<or> (\<exists>g. nonzero (generatedValues (trace (snd (Execute env query)))) = [g]
                 \<and> InsertId result = 0
                 \<and> fst (Execute env query) = Ret (result\<lparr>InsertId := g\<rparr>))
            \<or> (\<exists>g. nonzero (generatedValues (trace (snd (Execute env query)))) = [g]
                 \<and> InsertId result \<noteq> 0
                 \<and> fst (Execute env query) = Fail ErrBothGenerated))
       \<and> (\<forall>returned. fst (Execute env query) = Ret returned \<longrightarrow>
            (\<exists>pre sql b ks shards tt se result.
               trace (snd (Execute env query))
                 = pre @ [EvExecute sql b ks shards tt se (Ret result)]
               \<and> (\<forall>e\<in>set pre. \<not> isDispatch e)))"
proof -
  let ?plan = "GetPlan env (Sql query)"
  obtain r st' where ex: "Execute env query = (r, st')" by (cases "Execute env query")
  from ex assms have ins: "execInsertSharded env query ?plan (initState query) = (r, st')"
    by (simp add: Execute_arms)
  from execInsertSharded_cases[OF ins] obtain evs where
    t0: "trace st' = trace (initState query) @ evs"
    and c: "((\<forall>e\<in>set evs. \<not> isDispatch e)
        \<and> (\<forall>res. r \<noteq> Ret res)
        \<and> length (nonzero (generatedValues evs)) \<le> 2
        \<and> (length (nonzero (generatedValues evs)) = 2 \<longrightarrow> r = Fail ErrMoreThanOneGenerated)
        \<and> ((\<exists>e\<in>set evs. mapsTo MinKey e) \<longrightarrow> (\<exists>vk. r = Fail (ErrCouldNotMap vk))))
      \<or> (\<exists>pre k ks shard res g.
            evs = pre @ [EvExecute (Rewritten ?plan @ dmlPostfix env k) (bv st') ks [shard]
                           (TabletType query) (Session query) res]
            \<and> (\<forall>e\<in>set pre. \<not> isDispatch e \<and> \<not> mapsTo MinKey e)
            \<and> (\<exists>e\<in>set pre. mapsTo k e)
            \<and> bv st' ksidName = Some (VStr k) \<and> k \<noteq> MinKey
            \<and> nonzero (generatedValues pre) = G g
            \<and> r = insertOutcome g res)"
    by blast
  from t0 have t: "trace st' = evs" by simp
  let ?nz = "nonzero (generatedValues evs)"
  have "(2 \<le> length ?nz \<longrightarrow> r = Fail ErrMoreThanOneGenerated \<and> (\<forall>e\<in>set evs. \<not> isDispatch e))
       \<and> (\<forall>sql b ks shards tt se result.
            EvExecute sql b ks shards tt se (Ret result) \<in> set evs \<longrightarrow>
              (?nz = [] \<and> r = Ret result)
            \<or> (\<exists>g. ?nz = [g] \<and> InsertId result = 0 \<and> r = Ret (result\<lparr>InsertId := g\<rparr>))
            \<or> (\<exists>g. ?nz = [g] \<and> InsertId result \<noteq> 0 \<and> r = Fail ErrBothGenerated))
       \<and> (\<forall>returned. r = Ret returned \<longrightarrow>
            (\<exists>pre sql b ks shards tt se result.
               evs = pre @ [EvExecute sql b ks shards tt se (Ret result)]
               \<and> (\<forall>e\<in>set pre. \<not> isDispatch e)))"
    using c
  proof
    assume a: "(\<forall>e\<in>set evs. \<not> isDispatch e)
        \<and> (\<forall>res. r \<noteq> Ret res)
        \<and> length ?nz \<le> 2
        \<and> (length ?nz = 2 \<longrightarrow> r = Fail ErrMoreThanOneGenerated)
        \<and> ((\<exists>e\<in>set evs. mapsTo MinKey e) \<longrightarrow> (\<exists>vk. r = Fail (ErrCouldNotMap vk)))"
    then have nd: "\<forall>e\<in>set evs. \<not> isDispatch e" by blast
    have "EvExecute sql b ks shards tt se (Ret result) \<notin> set evs"
      for sql b ks shards tt se result
      using nd by fastforce
    moreover from a have "2 \<le> length ?nz \<longrightarrow> r = Fail ErrMoreThanOneGenerated" by auto
    moreover from a have "\<forall>res. r \<noteq> Ret res" by blast
    ultimately show ?thesis using nd by blast
  next
    assume "\<exists>pre k ks shard res g.
            evs = pre @ [EvExecute (Rewritten ?plan @ dmlPostfix env k) (bv st') ks [shard]
                           (TabletType query) (Session query) res]
            \<and> (\<forall>e\<in>set pre. \<not> isDispatch e \<and> \<not> mapsTo MinKey e)
            \<and> (\<exists>e\<in>set pre. mapsTo k e)
            \<and> bv st' ksidName = Some (VStr k) \<and> k \<noteq> MinKey
            \<and> nonzero (generatedValues pre) = G g
            \<and> r = insertOutcome g res"
    then obtain pre k ks shard res g where
      e: "evs = pre @ [EvExecute (Rewritten ?plan @ dmlPostfix env k) (bv st') ks [shard]
                           (TabletType query) (Session query) res]"
      and nd: "\<forall>e\<in>set pre. \<not> isDispatch e"
      and g: "nonzero (generatedValues pre) = G g"
      and r: "r = insertOutcome g res"
      by blast
    have nz: "?nz = G g" using e g by (simp add: nonzero_def)
    have last: "res = Ret result"
      if "EvExecute sql b ks' shards tt se (Ret result) \<in> set evs"
      for sql b ks' shards tt se result
    proof -
      from that e nd have "EvExecute sql b ks' shards tt se (Ret result) =
          EvExecute (Rewritten ?plan @ dmlPostfix env k) (bv st') ks [shard]
            (TabletType query) (Session query) res"
        by fastforce
      then show ?thesis by simp
    qed
    have out: "(G g = [] \<and> insertOutcome g (Ret result) = Ret result)
            \<or> (\<exists>g'. G g = [g'] \<and> InsertId result = 0
                  \<and> insertOutcome g (Ret result) = Ret (result\<lparr>InsertId := g'\<rparr>))
            \<or> (\<exists>g'. G g = [g'] \<and> InsertId result \<noteq> 0
                  \<and> insertOutcome g (Ret result) = Fail ErrBothGenerated)" for result
      by (simp add: G_def insertOutcome_def)
    have onlyAfter: "\<exists>pre sql b ks shards tt se result.
               evs = pre @ [EvExecute sql b ks shards tt se (Ret result)]
               \<and> (\<forall>e\<in>set pre. \<not> isDispatch e)" if "r = Ret returned" for returned
    proof -
      from that r obtain result where "res = Ret result"
        by (cases res) (simp_all add: insertOutcome_def)
      with e nd show ?thesis by blast
    qed
    have "\<not> 2 \<le> length ?nz" unfolding nz by (simp add: G_def)
    then have "(2 \<le> length ?nz \<longrightarrow> r = Fail ErrMoreThanOneGenerated \<and> (\<forall>e\<in>set evs. \<not> isDispatch e))
       \<and> (\<forall>sql b ks shards tt se result.
            EvExecute sql b ks shards tt se (Ret result) \<in> set evs \<longrightarrow>
              (?nz = [] \<and> r = Ret result)
            \<or> (\<exists>g. ?nz = [g] \<and> InsertId result = 0 \<and> r = Ret (result\<lparr>InsertId := g\<rparr>))
            \<or> (\<exists>g. ?nz = [g] \<and> InsertId result \<noteq> 0 \<and> r = Fail ErrBothGenerated))"
      using last out r unfolding nz by blast
    with onlyAfter show ?thesis by blast
  qed
  with ex t show ?thesis by simp
qed

theorem insert_generated_id_witness:
  "fst (Execute (demoEnv (demoPlan InsertSharded (VList [VStr '':id'', VNil])))
          (demoQuery (VStr ''k''))) = Ret (emptyResult\<lparr>InsertId := 7\<rparr>)
   \<and> generatedValues (trace (snd
        (Execute (demoEnv (demoPlan InsertSharded (VList [VStr '':id'', VNil])))
           (demoQuery (VStr ''k''))))) = [7]"
proof -
  let ?p = "demoPlan InsertSharded (VList [VStr '':id'', VNil])"
  let ?q = "demoQuery (VStr ''k'')"
  have t: "trace (snd (Execute (demoEnv ?p) ?q)) =
      [EvCreate userIndex (VStr ''k'') (Ret ()),
       EvMapUnique userIndex [VStr ''k''] (Ret [''k'']),
       EvGetKeyspaceShards ''TestRouter'' ''master'' (Ret (''TestRouter'', demoShards)),
       EvGenerateLookup musicUserMap ''k'' (Ret 7),
       EvExecute ''dml /* _routing keyspace_id:k */''
         [''id'' \<mapsto> VStr ''k'', ''_user_id'' \<mapsto> VStr ''k'', ''_id'' \<mapsto> VInt64 7,
          ''keyspace_id'' \<mapsto> VStr ''k'']
         ''TestRouter'' [''-80''] ''master'' 0 (Ret emptyResult)]"
    by (simp add: exec_defs demo_defs)
  have i: "ID (GetPlan (demoEnv ?p) (Sql ?q)) = InsertSharded"
    by (simp add: demo_defs)
  have g: "generatedValues (trace (snd (Execute (demoEnv ?p) ?q))) = [7]"
    unfolding t by simp
  have z: "InsertId emptyResult = 0" by (simp add: emptyResult_def)
  from insert_generated_id[OF i] have
    "(nonzero [7::64 word] = [] \<and> fst (Execute (demoEnv ?p) ?q) = Ret emptyResult)
     \<or> (\<exists>g. nonzero [7::64 word] = [g] \<and> InsertId emptyResult = 0
           \<and> fst (Execute (demoEnv ?p) ?q) = Ret (emptyResult\<lparr>InsertId := g\<rparr>))
     \<or> (\<exists>g. nonzero [7::64 word] = [g] \<and> InsertId emptyResult \<noteq> 0
           \<and> fst (Execute (demoEnv ?p) ?q) = Fail ErrBothGenerated)"
    unfolding g t by simp
  then have "fst (Execute (demoEnv ?p) ?q) = Ret (emptyResult\<lparr>InsertId := 7\<rparr>)"
    using z by (auto simp: nonzero_def)
  with g show ?thesis by simp
qed

text \<open>
  Claim C5 as stated counts every generated value. When the primary ColVindex generates
  0 and a second ColVindex generates 7, two ColVindexes have generated a value each, yet
  the statement does not fail: the insert is dispatched and its result carries insert
  id 7.
\<close>

theorem insert_two_generated_no_error:
  "fst (Execute (demoEnv (demoPlan InsertSharded (VList [VNil, VNil])))
          (demoQuery (VStr ''k''))) = Ret (emptyResult\<lparr>InsertId := 7\<rparr>)
   \<and> generatedValues (trace (snd
        (Execute (demoEnv (demoPlan InsertSharded (VList [VNil, VNil])))
           (demoQuery (VStr ''k''))))) = [0, 7]"
  by (simp add: exec_defs demo_defs)

lemma isDelete_not_isDispatch: "isDelete e \<Longrightarrow> \<not> isDispatch e"
  by (cases e) simp_all

lemma mapsOnlyTo_mapsTo: "mapsOnlyTo k e \<Longrightarrow> mapsTo k e"
  by (auto simp: mapsOnlyTo_cases)

text \<open>
  Claim C7. A DeleteEqual execution whose plan carries a subquery leaves one of three
  logs. Before anything else come the calls that resolve the shard (\<open>pre\<close>: no dispatch,
  no \<open>Delete\<close>). Then either the statement ends there (an error, or the \<open>MinKey\<close>
  no-op); or the subquery is dispatched, followed by \<open>Delete\<close> calls only, and the
  statement fails: the base delete is not issued; or the subquery returns a result, the
  \<open>Delete\<close> calls of the completed protocol follow (\<open>protocolDeletes\<close>: none for an
  empty result, else one for each owned ColVindex, in order, each successful, with the
  resolved keyspace id and with the distinct values of its column, every one of which
  converted without error), and only then, as the last call, the base delete is
  dispatched to the same keyspace and shard, and its outcome is the statement's. So a
  base delete is never issued after an error of the subquery, of a conversion or of a
  \<open>Delete\<close>.
\<close>

theorem delete_protocol_before_base_delete:
  assumes "ID plan = DeleteEqual" and "plan = GetPlan env (Sql query)"
    and "Subquery plan \<noteq> []"
  shows "\<exists>pre. (\<forall>e\<in>set pre. \<not> isDispatch e \<and> \<not> isDelete e) \<and>
     ((trace (snd (Execute env query)) = pre
         \<and> (fst (Execute env query) = Ret emptyResult
              \<or> (\<forall>res. fst (Execute env query) \<noteq> Ret res)))
      \<or> (\<exists>ks shard sub dels.
            trace (snd (Execute env query)) = pre @
              EvExecute (Subquery plan) (bv (initState query)) ks [shard]
                (TabletType query) (Session query) sub # dels
            \<and> (\<forall>e\<in>set dels. isDelete e)
            \<and> (\<forall>res. fst (Execute env query) \<noteq> Ret res))
      \<or> (\<exists>k ks shard result dels.
            trace (snd (Execute env query)) = pre @
              EvExecute (Subquery plan) (bv (initState query)) ks [shard]
                (TabletType query) (Session query) (Ret result)
              # dels @
              [EvExecute (Rewritten plan @ dmlPostfix env k)
                 ((bv (initState query))(ksidName \<mapsto> VStr k)) ks [shard]
                 (TabletType query) (Session query) (fst (Execute env query))]
            \<and> protocolDeletes env plan result k dels
            \<and> (\<exists>e\<in>set pre. mapsOnlyTo k e)))"
proof -
  obtain r st' where ex: "Execute env query = (r, st')" by (cases "Execute env query")
  with assms(1,2) have del: "execDeleteEqual env query plan (initState query) = (r, st')"
    by (simp add: Execute_arms)
  from execDeleteEqual_cases[OF del] obtain pre where
    d: "\<forall>e\<in>set pre. \<not> isDispatch e \<and> \<not> isDelete e"
    and c: "(trace st' = trace (initState query) @ pre \<and> bv st' = bv (initState query)
         \<and> (if \<exists>e\<in>set pre. mapsOnlyTo MinKey e then r = Ret emptyResult
             else \<forall>res. r \<noteq> Ret res))
      \<or> (\<exists>ks shard sub dels. Subquery plan \<noteq> []
            \<and> (\<forall>e\<in>set pre. \<not> mapsOnlyTo MinKey e)
            \<and> trace st' = trace (initState query) @ pre @
                 EvExecute (Subquery plan) (bv (initState query)) ks [shard]
                   (TabletType query) (Session query) sub # dels
            \<and> (\<forall>e\<in>set dels. isDelete e)
            \<and> (\<forall>res. r \<noteq> Ret res) \<and> bv st' = bv (initState query))
      \<or> (\<exists>k ks shard mid. k \<noteq> MinKey \<and> (\<exists>e\<in>set pre. mapsOnlyTo k e)
            \<and> (\<forall>e\<in>set pre. \<not> mapsOnlyTo MinKey e)
            \<and> trace st' = trace (initState query) @ pre @ mid @
                 [EvExecute (Rewritten plan @ dmlPostfix env k) (bv st') ks [shard]
                    (TabletType query) (Session query) r]
            \<and> bv st' = (bv (initState query))(ksidName \<mapsto> VStr k)
            \<and> (if Subquery plan = [] then mid = []
                else \<exists>result dels. mid =
                  EvExecute (Subquery plan) (bv (initState query)) ks [shard]
                    (TabletType query) (Session query) (Ret result)
                    # dels
                    \<and> protocolDeletes env plan result k dels))"
    by blast
  let ?goal = "\<lambda>pre. (trace st' = pre \<and> (r = Ret emptyResult \<or> (\<forall>res. r \<noteq> Ret res)))
      \<or> (\<exists>ks shard sub dels.
            trace st' = pre @
              EvExecute (Subquery plan) (bv (initState query)) ks [shard]
                (TabletType query) (Session query) sub # dels
            \<and> (\<forall>e\<in>set dels. isDelete e)
            \<and> (\<forall>res. r \<noteq> Ret res))
      \<or> (\<exists>k ks shard result dels.
            trace st' = pre @
              EvExecute (Subquery plan) (bv (initState query)) ks [shard]
                (TabletType query) (Session query) (Ret result)
              # dels @
              [EvExecute (Rewritten plan @ dmlPostfix env k)
                 ((bv (initState query))(ksidName \<mapsto> VStr k)) ks [shard]
                 (TabletType query) (Session query) r]
            \<and> protocolDeletes env plan result k dels
            \<and> (\<exists>e\<in>set pre. mapsOnlyTo k e))"
  from c have "?goal pre"
  proof (elim disjE)
    assume "trace st' = trace (initState query) @ pre \<and> bv st' = bv (initState query)
         \<and> (if \<exists>e\<in>set pre. mapsOnlyTo MinKey e then r = Ret emptyResult
             else \<forall>res. r \<noteq> Ret res)"
    then have "trace st' = pre \<and> (r = Ret emptyResult \<or> (\<forall>res. r \<noteq> Ret res))"
      by (simp split: if_splits)
    then show ?thesis by (rule disjI1)
  next
    assume "\<exists>ks shard sub dels. Subquery plan \<noteq> []
            \<and> (\<forall>e\<in>set pre. \<not> mapsOnlyTo MinKey e)
            \<and> trace st' = trace (initState query) @ pre @
                 EvExecute (Subquery plan) (bv (initState query)) ks [shard]
                   (TabletType query) (Session query) sub # dels
            \<and> (\<forall>e\<in>set dels. isDelete e)
            \<and> (\<forall>res. r \<noteq> Ret res) \<and> bv st' = bv (initState query)"
    then obtain ks shard sub dels where
      "trace st' = trace (initState query) @ pre @
                   EvExecute (Subquery plan) (bv (initState query)) ks [shard]
                   (TabletType query) (Session query) sub # dels"
      "\<forall>e\<in>set dels. isDelete e" "\<forall>res. r \<noteq> Ret res"
      by blast
    then have "trace st' = pre @ EvExecute (Subquery plan) (bv (initState query)) ks [shard]
                   (TabletType query) (Session query) sub # dels"
      "\<forall>e\<in>set dels. isDelete e" "\<forall>res. r \<noteq> Ret res"
      by simp_all
    then have "\<exists>ks shard sub dels.
            trace st' = pre @
              EvExecute (Subquery plan) (bv (initState query)) ks [shard]
                (TabletType query) (Session query) sub # dels
            \<and> (\<forall>e\<in>set dels. isDelete e)
            \<and> (\<forall>res. r \<noteq> Ret res)" by blast
    then show ?thesis by (intro disjI2 disjI1)
  next
    assume "\<exists>k ks shard mid. k \<noteq> MinKey \<and> (\<exists>e\<in>set pre. mapsOnlyTo k e)
            \<and> (\<forall>e\<in>set pre. \<not> mapsOnlyTo MinKey e)
            \<and> trace st' = trace (initState query) @ pre @ mid @
                 [EvExecute (Rewritten plan @ dmlPostfix env k) (bv st') ks [shard]
                    (TabletType query) (Session query) r]
            \<and> bv st' = (bv (initState query))(ksidName \<mapsto> VStr k)
            \<and> (if Subquery plan = [] then mid = []
                else \<exists>result dels. mid =
                  EvExecute (Subquery plan) (bv (initState query)) ks [shard]
                    (TabletType query) (Session query) (Ret result)
                    # dels
                    \<and> protocolDeletes env plan result k dels)"
    then obtain k ks shard mid where
      mk: "\<exists>e\<in>set pre. mapsOnlyTo k e"
      and t0: "trace st' = trace (initState query) @ pre @ mid @
                 [EvExecute (Rewritten plan @ dmlPostfix env k) (bv st') ks [shard]
                    (TabletType query) (Session query) r]"
      and b: "bv st' = (bv (initState query))(ksidName \<mapsto> VStr k)"
      and m: "if Subquery plan = [] then mid = []
                else \<exists>result dels. mid =
                  EvExecute (Subquery plan) (bv (initState query)) ks [shard]
                    (TabletType query) (Session query) (Ret result)
                    # dels
                    \<and> protocolDeletes env plan result k dels"
      by blast
    from t0 have t: "trace st' = pre @ mid @
                 [EvExecute (Rewritten plan @ dmlPostfix env k) (bv st') ks [shard]
                    (TabletType query) (Session query) r]"
      by simp
    from m assms(3) obtain result dels where
      mid: "mid = EvExecute (Subquery plan) (bv (initState query)) ks [shard]
                    (TabletType query) (Session query) (Ret result) # dels"
      and pd: "protocolDeletes env plan result k dels" by auto
    have "trace st' = pre @
              EvExecute (Subquery plan) (bv (initState query)) ks [shard]
                (TabletType query) (Session query) (Ret result)
              # dels @
              [EvExecute (Rewritten plan @ dmlPostfix env k)
                 ((bv (initState query))(ksidName \<mapsto> VStr k)) ks [shard]
                 (TabletType query) (Session query) r]
            \<and> protocolDeletes env plan result k dels
            \<and> (\<exists>e\<in>set pre. mapsOnlyTo k e)"
      using t b mid pd mk by simp
    then show ?thesis by (intro disjI2) blast
  qed
  with d ex show ?thesis by (intro exI[of _ pre]) simp
qed

theorem delete_protocol_before_base_delete_witness:
  "ID (demoPlan DeleteEqual (VStr '':id'')) = DeleteEqual
   \<and> trace (snd (Execute (demoEnv (demoPlan DeleteEqual (VStr '':id''))) (demoQuery (VStr ''k''))))
     = [EvGetKeyspaceShards ''TestRouter'' ''master'' (Ret (''TestRouter'', demoShards)),
        EvMapUnique userIndex [VStr ''k''] (Ret [''k'']),
        EvExecute ''sub'' [''id'' \<mapsto> VStr ''k''] ''TestRouter'' [''-80''] ''master'' 0
          (Ret \<lparr>Fields = [\<lparr>Type = 1\<rparr>], RowsAffected = 0, InsertId = 0,
                 Rows = [[''a''], [''b''], [''a'']]\<rparr>),
        EvDelete musicUserMap [VStr ''b'', VStr ''a''] ''k'' (Ret ()),
        EvExecute ''dml /* _routing keyspace_id:k */''
          [''id'' \<mapsto> VStr ''k'', ''keyspace_id'' \<mapsto> VStr ''k'']
          ''TestRouter'' [''-80''] ''master'' 0 (Ret emptyResult)]"
proof -
  let ?p = "demoPlan DeleteEqual (VStr '':id'')"
  have i: "ID ?p = DeleteEqual" and g: "?p = GetPlan (demoEnv ?p) (Sql (demoQuery (VStr ''k'')))"
    and s: "Subquery ?p \<noteq> []"
    by (simp_all add: demo_defs)
  have ev: "trace (snd (Execute (demoEnv ?p) (demoQuery (VStr ''k''))))
     = [EvGetKeyspaceShards ''TestRouter'' ''master'' (Ret (''TestRouter'', demoShards)),
        EvMapUnique userIndex [VStr ''k''] (Ret [''k'']),
        EvExecute ''sub'' [''id'' \<mapsto> VStr ''k''] ''TestRouter'' [''-80''] ''master'' 0
          (Ret \<lparr>Fields = [\<lparr>Type = 1\<rparr>], RowsAffected = 0, InsertId = 0,
                 Rows = [[''a''], [''b''], [''a'']]\<rparr>),
        EvDelete musicUserMap [VStr ''b'', VStr ''a''] ''k'' (Ret ()),
        EvExecute ''dml /* _routing keyspace_id:k */''
          [''id'' \<mapsto> VStr ''k'', ''keyspace_id'' \<mapsto> VStr ''k'']
          ''TestRouter'' [''-80''] ''master'' 0 (Ret emptyResult)]"
    by (simp add: exec_defs demo_defs)
  show ?thesis
    using delete_protocol_before_base_delete[OF i g s] by - (rule conjI[OF i ev])
qed

lemma sharded_dml_dispatch:
  assumes "ID plan = UpdateEqual \<or> ID plan = DeleteEqual \<or> ID plan = InsertSharded"
    and "plan = GetPlan env (Sql query)"
    and "e \<in> set (trace (snd (Execute env query)))" and "isDispatch e"
  shows "(ID plan = DeleteEqual \<and> Subquery plan \<noteq> []
          \<and> (\<exists>b ks shard tt se res. e = EvExecute (Subquery plan) b ks [shard] tt se res))
       \<or> (\<exists>k b ks shard tt se res.
            e = EvExecute
                  (Rewritten plan @ '' /* _routing keyspace_id:'' @ formatKsid env k @ '' */'')
                  b ks [shard] tt se res
            \<and> b ksidName = Some (VStr k) \<and> k \<noteq> MinKey
            \<and> (\<exists>m\<in>set (trace (snd (Execute env query))). mapsTo k m)
            \<and> e = last (trace (snd (Execute env query))))"
proof -
  obtain r st' where ex: "Execute env query = (r, st')" by (cases "Execute env query")
  from assms(3) ex have e: "e \<in> set (trace st')" by simp
  let ?final = "\<lambda>k b ks shard. EvExecute (Rewritten plan @ dmlPostfix env k) b ks [shard]
                    (TabletType query) (Session query) r"
  have fin: "\<exists>k b ks shard tt se res.
            e = EvExecute
                  (Rewritten plan @ '' /* _routing keyspace_id:'' @ formatKsid env k @ '' */'')
                  b ks [shard] tt se res
            \<and> b ksidName = Some (VStr k) \<and> k \<noteq> MinKey
            \<and> (\<exists>m\<in>set (trace st'). mapsTo k m)
            \<and> e = last (trace st')"
    if "trace st' = pre @ mid @ [?final k b ks shard]" "e = ?final k b ks shard"
      "b ksidName = Some (VStr k)" "k \<noteq> MinKey" "\<exists>m\<in>set pre. mapsTo k m"
    for pre mid k b ks shard
    using that by (auto simp: dmlPostfix_def)
  have "(ID plan = DeleteEqual \<and> Subquery plan \<noteq> []
          \<and> (\<exists>b ks shard tt se res. e = EvExecute (Subquery plan) b ks [shard] tt se res))
       \<or> (\<exists>k b ks shard tt se res.
            e = EvExecute
                  (Rewritten plan @ '' /* _routing keyspace_id:'' @ formatKsid env k @ '' */'')
                  b ks [shard] tt se res
            \<and> b ksidName = Some (VStr k) \<and> k \<noteq> MinKey
            \<and> (\<exists>m\<in>set (trace st'). mapsTo k m)
            \<and> e = last (trace st'))"
    using assms(1)
  proof (elim disjE)
    assume "ID plan = UpdateEqual"
    with ex assms(2) have "execUpdateEqual env query plan (initState query) = (r, st')"
      by (simp add: Execute_arms)
    from execUpdateEqual_cases[OF this] obtain pre where
      d: "\<forall>e\<in>set pre. \<not> isDispatch e \<and> \<not> isDelete e"
      and c: "(trace st' = trace (initState query) @ pre \<and> bv st' = bv (initState query)
         \<and> (if \<exists>e\<in>set pre. mapsOnlyTo MinKey e then r = Ret emptyResult
             else \<forall>res. r \<noteq> Ret res))
      \<or> (\<exists>k ks shard. k \<noteq> MinKey \<and> (\<exists>e\<in>set pre. mapsOnlyTo k e)
            \<and> (\<forall>e\<in>set pre. \<not> mapsOnlyTo MinKey e)
            \<and> trace st' = trace (initState query) @ pre @
                 [EvExecute (Rewritten plan @ dmlPostfix env k) (bv st') ks [shard]
                    (TabletType query) (Session query) r]
            \<and> bv st' = (bv (initState query))(ksidName \<mapsto> VStr k))"
      by blast
    from c show ?thesis
    proof
      assume "trace st' = trace (initState query) @ pre \<and> bv st' = bv (initState query)
         \<and> (if \<exists>e\<in>set pre. mapsOnlyTo MinKey e then r = Ret emptyResult
             else \<forall>res. r \<noteq> Ret res)"
      then have "trace st' = pre" by simp
      with e d assms(4) show ?thesis by blast
    next
      assume "\<exists>k ks shard. k \<noteq> MinKey \<and> (\<exists>e\<in>set pre. mapsOnlyTo k e)
            \<and> (\<forall>e\<in>set pre. \<not> mapsOnlyTo MinKey e)
            \<and> trace st' = trace (initState query) @ pre @
                 [EvExecute (Rewritten plan @ dmlPostfix env k) (bv st') ks [shard]
                    (TabletType query) (Session query) r]
            \<and> bv st' = (bv (initState query))(ksidName \<mapsto> VStr k)"
      then obtain k ks shard where k: "k \<noteq> MinKey" and mk: "\<exists>e\<in>set pre. mapsOnlyTo k e"
        and t0: "trace st' = trace (initState query) @ pre @ [?final k (bv st') ks shard]"
        and b: "bv st' = (bv (initState query))(ksidName \<mapsto> VStr k)"
        by blast
      from t0 have t: "trace st' = pre @ [] @ [?final k (bv st') ks shard]" by simp
      from e t d assms(4) have "e = ?final k (bv st') ks shard" by auto
      moreover from b have "bv st' ksidName = Some (VStr k)" by simp
      moreover from mk have "\<exists>m\<in>set pre. mapsTo k m" using mapsOnlyTo_mapsTo by blast
      ultimately show ?thesis using fin[OF t] k by blast
    qed
  next
    assume "ID plan = InsertSharded"
    with ex assms(2) have "execInsertSharded env query plan (initState query) = (r, st')"
      by (simp add: Execute_arms)
    from execInsertSharded_cases[OF this] obtain evs where
      t0: "trace st' = trace (initState query) @ evs"
      and c: "((\<forall>e\<in>set evs. \<not> isDispatch e)
        \<and> (\<forall>res. r \<noteq> Ret res)
        \<and> length (nonzero (generatedValues evs)) \<le> 2
        \<and> (length (nonzero (generatedValues evs)) = 2 \<longrightarrow> r = Fail ErrMoreThanOneGenerated)
        \<and> ((\<exists>e\<in>set evs. mapsTo MinKey e) \<longrightarrow> (\<exists>vk. r = Fail (ErrCouldNotMap vk))))
      \<or> (\<exists>pre k ks shard res g.
            evs = pre @ [EvExecute (Rewritten plan @ dmlPostfix env k) (bv st') ks [shard]
                           (TabletType query) (Session query) res]
            \<and> (\<forall>e\<in>set pre. \<not> isDispatch e \<and> \<not> mapsTo MinKey e)
            \<and> (\<exists>e\<in>set pre. mapsTo k e)
            \<and> bv st' ksidName = Some (VStr k) \<and> k \<noteq> MinKey
            \<and> nonzero (generatedValues pre) = G g
            \<and> r = insertOutcome g res)"
      by blast
    from t0 have t: "trace st' = evs" by simp
    from c show ?thesis
    proof
      assume "(\<forall>e\<in>set evs. \<not> isDispatch e)
        \<and> (\<forall>res. r \<noteq> Ret res)
        \<and> length (nonzero (generatedValues evs)) \<le> 2
        \<and> (length (nonzero (generatedValues evs)) = 2 \<longrightarrow> r = Fail ErrMoreThanOneGenerated)
        \<and> ((\<exists>e\<in>set evs. mapsTo MinKey e) \<longrightarrow> (\<exists>vk. r = Fail (ErrCouldNotMap vk)))"
      with e t assms(4) show ?thesis by blast
    next
      assume "\<exists>pre k ks shard res g.
            evs = pre @ [EvExecute (Rewritten plan @ dmlPostfix env k) (bv st') ks [shard]
                           (TabletType query) (Session query) res]
            \<and> (\<forall>e\<in>set pre. \<not> isDispatch e \<and> \<not> mapsTo MinKey e)
            \<and> (\<exists>e\<in>set pre. mapsTo k e)
            \<and> bv st' ksidName = Some (VStr k) \<and> k \<noteq> MinKey
            \<and> nonzero (generatedValues pre) = G g
            \<and> r = insertOutcome g res"
      then obtain pre k ks shard res where
        ev: "evs = pre @ [EvExecute (Rewritten plan @ dmlPostfix env k) (bv st') ks [shard]
                           (TabletType query) (Session query) res]"
        and d: "\<forall>e\<in>set pre. \<not> isDispatch e"
        and mk: "\<exists>e\<in>set pre. mapsTo k e"
        and b: "bv st' ksidName = Some (VStr k)" and k: "k \<noteq> MinKey"
        by blast
      from e t ev d assms(4) have
        "e = EvExecute (Rewritten plan @ dmlPostfix env k) (bv st') ks [shard]
               (TabletType query) (Session query) res"
        by auto
      with t ev b k mk show ?thesis
        by (intro disjI2 exI[of _ k] exI[of _ "bv st'"] exI[of _ ks] exI[of _ shard]
              exI[of _ "TabletType query"] exI[of _ "Session query"] exI[of _ res])
           (auto simp: dmlPostfix_def)
    qed
  next
    assume del: "ID plan = DeleteEqual"
    with ex assms(2) have "execDeleteEqual env query plan (initState query) = (r, st')"
      by (simp add: Execute_arms)
    from execDeleteEqual_cases[OF this] obtain pre where
      d: "\<forall>e\<in>set pre. \<not> isDispatch e \<and> \<not> isDelete e"
      and c: "(trace st' = trace (initState query) @ pre \<and> bv st' = bv (initState query)
         \<and> (if \<exists>e\<in>set pre. mapsOnlyTo MinKey e then r = Ret emptyResult
             else \<forall>res. r \<noteq> Ret res))
      \<or> (\<exists>ks shard sub dels. Subquery plan \<noteq> []
            \<and> (\<forall>e\<in>set pre. \<not> mapsOnlyTo MinKey e)
            \<and> trace st' = trace (initState query) @ pre @
                 EvExecute (Subquery plan) (bv (initState query)) ks [shard]
                   (TabletType query) (Session query) sub # dels
            \<and> (\<forall>e\<in>set dels. isDelete e)
            \<and> (\<forall>res. r \<noteq> Ret res) \<and> bv st' = bv (initState query))
      \<or> (\<exists>k ks shard mid. k \<noteq> MinKey \<and> (\<exists>e\<in>set pre. mapsOnlyTo k e)
            \<and> (\<forall>e\<in>set pre. \<not> mapsOnlyTo MinKey e)
            \<and> trace st' = trace (initState query) @ pre @ mid @
                 [EvExecute (Rewritten plan @ dmlPostfix env k) (bv st') ks [shard]
                    (TabletType query) (Session query) r]
            \<and> bv st' = (bv (initState query))(ksidName \<mapsto> VStr k)
            \<and> (if Subquery plan = [] then mid = []
                else \<exists>result dels. mid =
                  EvExecute (Subquery plan) (bv (initState query)) ks [shard]
                    (TabletType query) (Session query) (Ret result)
                    # dels
                    \<and> protocolDeletes env plan result k dels))"
      by blast
    from c show ?thesis
    proof (elim disjE)
      assume "trace st' = trace (initState query) @ pre \<and> bv st' = bv (initState query)
         \<and> (if \<exists>e\<in>set pre. mapsOnlyTo MinKey e then r = Ret emptyResult
             else \<forall>res. r \<noteq> Ret res)"
      then have "trace st' = pre" by simp
      with e d assms(4) show ?thesis by blast
    next
      assume "\<exists>ks shard sub dels. Subquery plan \<noteq> []
            \<and> (\<forall>e\<in>set pre. \<not> mapsOnlyTo MinKey e)
            \<and> trace st' = trace (initState query) @ pre @
                 EvExecute (Subquery plan) (bv (initState query)) ks [shard]
                   (TabletType query) (Session query) sub # dels
            \<and> (\<forall>e\<in>set dels. isDelete e)
            \<and> (\<forall>res. r \<noteq> Ret res) \<and> bv st' = bv (initState query)"
      then obtain ks shard sub dels where sq: "Subquery plan \<noteq> []"
        and t0: "trace st' = trace (initState query) @ pre @
                 EvExecute (Subquery plan) (bv (initState query)) ks [shard]
                   (TabletType query) (Session query) sub # dels"
        and dd: "\<forall>e\<in>set dels. isDelete e"
        by blast
      from t0 e have "e \<in> set pre \<or> e = EvExecute (Subquery plan) (bv (initState query))
          ks [shard] (TabletType query) (Session query) sub \<or> e \<in> set dels"
        by auto
      with d dd assms(4) isDelete_not_isDispatch
      have "e = EvExecute (Subquery plan) (bv (initState query))
          ks [shard] (TabletType query) (Session query) sub" by blast
      with del sq show ?thesis by blast
    next
      assume "\<exists>k ks shard mid. k \<noteq> MinKey \<and> (\<exists>e\<in>set pre. mapsOnlyTo k e)
            \<and> (\<forall>e\<in>set pre. \<not> mapsOnlyTo MinKey e)
            \<and> trace st' = trace (initState query) @ pre @ mid @
                 [EvExecute (Rewritten plan @ dmlPostfix env k) (bv st') ks [shard]
                    (TabletType query) (Session query) r]
            \<and> bv st' = (bv (initState query))(ksidName \<mapsto> VStr k)
            \<and> (if Subquery plan = [] then mid = []
                else \<exists>result dels. mid =
                  EvExecute (Subquery plan) (bv (initState query)) ks [shard]
                    (TabletType query) (Session query) (Ret result)
                    # dels
                    \<and> protocolDeletes env plan result k dels)"
      then obtain k ks shard mid where k: "k \<noteq> MinKey" and mk: "\<exists>e\<in>set pre. mapsOnlyTo k e"
        and t0: "trace st' = trace (initState query) @ pre @ mid @ [?final k (bv st') ks shard]"
        and b: "bv st' = (bv (initState query))(ksidName \<mapsto> VStr k)"
        and m: "if Subquery plan = [] then mid = []
                else \<exists>result dels. mid =
                  EvExecute (Subquery plan) (bv (initState query)) ks [shard]
                    (TabletType query) (Session query) (Ret result)
                    # dels
                    \<and> protocolDeletes env plan result k dels"
        by blast
      from t0 have t: "trace st' = pre @ mid @ [?final k (bv st') ks shard]" by simp
      from t e have "e \<in> set pre \<or> e \<in> set mid \<or> e = ?final k (bv st') ks shard" by auto
      with d assms(4) have cases: "e \<in> set mid \<or> e = ?final k (bv st') ks shard" by blast
      then show ?thesis
      proof
        assume em: "e \<in> set mid"
        with m have sq: "Subquery plan \<noteq> []" by (auto split: if_splits)
        with m obtain result dels where "mid =
                  EvExecute (Subquery plan) (bv (initState query)) ks [shard]
                    (TabletType query) (Session query) (Ret result) # dels"
          and pd: "protocolDeletes env plan result k dels" by auto
        with em assms(4) protocolDeletes_isDelete[OF pd] isDelete_not_isDispatch
        have "e = EvExecute (Subquery plan) (bv (initState query)) ks [shard]
                    (TabletType query) (Session query) (Ret result)"
          by (metis set_ConsD)
        with del sq show ?thesis by blast
      next
        assume "e = ?final k (bv st') ks shard"
        moreover from b have "bv st' ksidName = Some (VStr k)" by simp
        moreover from mk have "\<exists>m\<in>set pre. mapsTo k m" using mapsOnlyTo_mapsTo by blast
        ultimately show ?thesis using fin[OF t] k by blast
      qed
    qed
  qed
  with ex show ?thesis by simp
qed

lemma execUnsharded_cases:
  assumes "execUnsharded env query plan st = (r, st')"
  shows "(\<exists>res. trace st' = trace st @
              [EvGetKeyspaceShards (Name (Keyspace (Table plan))) (TabletType query) res]
            \<and> (\<forall>ks s. res \<noteq> Ret (ks, [s])) \<and> (\<forall>x. r \<noteq> Ret x))
       \<or> (\<exists>ks s. trace st' = trace st @
              [EvGetKeyspaceShards (Name (Keyspace (Table plan))) (TabletType query)
                 (Ret (ks, [s])),
               EvExecute (Sql query) (bv st) ks [ShardName s] (TabletType query)
                 (Session query) r])"
proof (cases "getKeyspaceShards env (trace st) (Name (Keyspace (Table plan))) (TabletType query)")
  case (Ret x)
  obtain ks allShards where x: "x = (ks, allShards)" by (cases x)
  show ?thesis
  proof (cases "length allShards = 1")
    case True
    then obtain s where s: "allShards = [s]" by (cases allShards) simp_all
    from assms Ret x s show ?thesis
      by (auto simp: execUnsharded_def call_getKeyspaceShards_def call_Execute_def
            logged_def Let_def andThen_def)
  next
    case False
    then have "\<forall>s. allShards \<noteq> [s]" by auto
    with assms Ret x False show ?thesis
      by (auto simp: execUnsharded_def call_getKeyspaceShards_def logged_def Let_def
            andThen_def)
  qed
next
  case (Fail err)
  with assms show ?thesis
    by (auto simp: execUnsharded_def call_getKeyspaceShards_def logged_def Let_def andThen_def)
next
  case (Crash p)
  with assms show ?thesis
    by (auto simp: execUnsharded_def call_getKeyspaceShards_def logged_def Let_def andThen_def)
qed

text \<open>
  Claim C6, as amended. In every UpdateEqual, DeleteEqual and InsertSharded execution,
  every dispatch to the scatter executor, the subquery of a DeleteEqual apart (a read),
  sends the plan's rewritten SQL followed by the routing comment
  \<open> /* _routing keyspace_id:<ksid> */\<close>, where \<open><ksid>\<close> is the keyspace id that the
  primary vindex's \<open>Map\<close> returned for the statement, as \<open>%v\<close> formats it; the same
  keyspace id is bound to \<open>keyspace_id\<close>, and the dispatch is the statement's last
  call. In every UpdateUnsharded, DeleteUnsharded and InsertUnsharded execution, every
  dispatch sends the query's own SQL, unchanged, with the query's bind variables, to
  the single shard that the topology lookup returned; the statement makes these two
  calls and no other, and returns what the dispatch returned.
\<close>

theorem dml_routing_comment:
  assumes "plan = GetPlan env (Sql query)"
    and "e \<in> set (trace (snd (Execute env query)))" and "isDispatch e"
  shows "(ID plan = UpdateEqual \<or> ID plan = DeleteEqual \<or> ID plan = InsertSharded \<longrightarrow>
          (ID plan = DeleteEqual \<and> Subquery plan \<noteq> []
            \<and> (\<exists>b ks shard tt se res. e = EvExecute (Subquery plan) b ks [shard] tt se res))
          \<or> (\<exists>k b ks shard tt se res.
              e = EvExecute
                    (Rewritten plan @ '' /* _routing keyspace_id:'' @ formatKsid env k @ '' */'')
                    b ks [shard] tt se res
              \<and> b ksidName = Some (VStr k) \<and> k \<noteq> MinKey
              \<and> (\<exists>m\<in>set (trace (snd (Execute env query))). mapsTo k m)
              \<and> e = last (trace (snd (Execute env query)))))
       \<and> (ID plan = UpdateUnsharded \<or> ID plan = DeleteUnsharded \<or> ID plan = InsertUnsharded
            \<longrightarrow>
          (\<exists>ks s. e = EvExecute (Sql query) (bv (initState query)) ks [ShardName s]
                        (TabletType query) (Session query) (fst (Execute env query))
             \<and> trace (snd (Execute env query)) =
                 [EvGetKeyspaceShards (Name (Keyspace (Table plan))) (TabletType query)
                    (Ret (ks, [s])), e]))"
proof (intro conjI impI)
  assume "ID plan = UpdateEqual \<or> ID plan = DeleteEqual \<or> ID plan = InsertSharded"
  from sharded_dml_dispatch[OF this assms]
  show "(ID plan = DeleteEqual \<and> Subquery plan \<noteq> []
            \<and> (\<exists>b ks shard tt se res. e = EvExecute (Subquery plan) b ks [shard] tt se res))
          \<or> (\<exists>k b ks shard tt se res.
              e = EvExecute
                    (Rewritten plan @ '' /* _routing keyspace_id:'' @ formatKsid env k @ '' */'')
                    b ks [shard] tt se res
              \<and> b ksidName = Some (VStr k) \<and> k \<noteq> MinKey
              \<and> (\<exists>m\<in>set (trace (snd (Execute env query))). mapsTo k m)
              \<and> e = last (trace (snd (Execute env query))))" .
next
  assume u: "ID plan = UpdateUnsharded \<or> ID plan = DeleteUnsharded \<or> ID plan = InsertUnsharded"
  obtain r st' where ex: "Execute env query = (r, st')" by (cases "Execute env query")
  from u assms(1) have "Execute env query = execUnsharded env query plan (initState query)"
    by (auto simp: Execute_def Let_def)
  with ex have "execUnsharded env query plan (initState query) = (r, st')" by simp
  from execUnsharded_cases[OF this]
  have c: "(\<exists>res. trace st' =
              [EvGetKeyspaceShards (Name (Keyspace (Table plan))) (TabletType query) res])
       \<or> (\<exists>ks s. trace st' =
              [EvGetKeyspaceShards (Name (Keyspace (Table plan))) (TabletType query)
                 (Ret (ks, [s])),
               EvExecute (Sql query) (bv (initState query)) ks [ShardName s] (TabletType query)
                 (Session query) r])"
    by auto
  from assms(2) ex have e: "e \<in> set (trace st')" by simp
  from c have "\<exists>ks s. e = EvExecute (Sql query) (bv (initState query)) ks [ShardName s]
                        (TabletType query) (Session query) r
             \<and> trace st' =
                 [EvGetKeyspaceShards (Name (Keyspace (Table plan))) (TabletType query)
                    (Ret (ks, [s])), e]"
  proof
    assume "\<exists>res. trace st' =
              [EvGetKeyspaceShards (Name (Keyspace (Table plan))) (TabletType query) res]"
    with e assms(3) show ?thesis by auto
  next
    assume "\<exists>ks s. trace st' =
              [EvGetKeyspaceShards (Name (Keyspace (Table plan))) (TabletType query)
                 (Ret (ks, [s])),
               EvExecute (Sql query) (bv (initState query)) ks [ShardName s] (TabletType query)
                 (Session query) r]"
    then obtain ks s where t: "trace st' =
              [EvGetKeyspaceShards (Name (Keyspace (Table plan))) (TabletType query)
                 (Ret (ks, [s])),
               EvExecute (Sql query) (bv (initState query)) ks [ShardName s] (TabletType query)
                 (Session query) r]"
      by blast
    with e assms(3) have "e = EvExecute (Sql query) (bv (initState query)) ks [ShardName s]
         (TabletType query) (Session query) r"
      by auto
    with t show ?thesis by blast
  qed
  with ex show "\<exists>ks s. e = EvExecute (Sql query) (bv (initState query)) ks [ShardName s]
                        (TabletType query) (Session query) (fst (Execute env query))
             \<and> trace (snd (Execute env query)) =
                 [EvGetKeyspaceShards (Name (Keyspace (Table plan))) (TabletType query)
                    (Ret (ks, [s])), e]"
    by simp
qed

theorem dml_routing_comment_witness:
  "List.map_filter dispatchedSql (trace (snd
      (Execute (demoEnv (demoPlan UpdateEqual (VStr '':id''))) (demoQuery (VStr ''k'')))))
     = [''dml /* _routing keyspace_id:k */'']
   \<and> last (trace (snd
      (Execute (demoEnv (demoPlan UpdateEqual (VStr '':id''))) (demoQuery (VStr ''k'')))))
     = EvExecute ''dml /* _routing keyspace_id:k */''
         [''id'' \<mapsto> VStr ''k'', ''keyspace_id'' \<mapsto> VStr ''k'']
         ''TestRouter'' [''-80''] ''master'' 0 (Ret emptyResult)
   \<and> trace (snd (Execute (unshardedEnv (demoPlan DeleteUnsharded VNil))
                   ((demoQuery VNil)\<lparr>Sql := ''delete from t''\<rparr>)))
     = [EvGetKeyspaceShards ''TestRouter'' ''master''
          (Ret (''TestRouter'', [\<lparr>ShardName = ''0'', ShardRange = \<lparr>Start = [], End = []\<rparr>\<rparr>])),
        EvExecute ''delete from t'' [''id'' \<mapsto> VNil] ''TestRouter'' [''0''] ''master'' 0
          (fst (Execute (unshardedEnv (demoPlan DeleteUnsharded VNil))
                  ((demoQuery VNil)\<lparr>Sql := ''delete from t''\<rparr>)))]"
proof -
  let ?p = "demoPlan UpdateEqual (VStr '':id'')"
  let ?e = "EvExecute ''dml /* _routing keyspace_id:k */''
         [''id'' \<mapsto> VStr ''k'', ''keyspace_id'' \<mapsto> VStr ''k'']
         ''TestRouter'' [''-80''] ''master'' 0 (Ret emptyResult)"
  have ev: "trace (snd (Execute (demoEnv ?p) (demoQuery (VStr ''k'')))) =
      [EvGetKeyspaceShards ''TestRouter'' ''master'' (Ret (''TestRouter'', demoShards)),
       EvMapUnique userIndex [VStr ''k''] (Ret [''k'']), ?e]"
    by (simp add: exec_defs demo_defs)
  have i: "ID ?p = UpdateEqual \<or> ID ?p = DeleteEqual \<or> ID ?p = InsertSharded"
    and g: "?p = GetPlan (demoEnv ?p) (Sql (demoQuery (VStr ''k'')))"
    by (simp_all add: demo_defs)
  have m: "?e \<in> set (trace (snd (Execute (demoEnv ?p) (demoQuery (VStr ''k'')))))"
    and d: "isDispatch ?e"
    unfolding ev by simp_all
  have n: "ID ?p \<noteq> DeleteEqual" by (simp add: demo_defs)
  from dml_routing_comment[OF g m d] i n
  have "?e = last (trace (snd (Execute (demoEnv ?p) (demoQuery (VStr ''k'')))))"
    by blast
  then have sharded: "List.map_filter dispatchedSql (trace (snd
      (Execute (demoEnv ?p) (demoQuery (VStr ''k'')))))
     = [''dml /* _routing keyspace_id:k */'']
   \<and> last (trace (snd (Execute (demoEnv ?p) (demoQuery (VStr ''k''))))) = ?e"
    unfolding ev by (simp add: map_filter_simps)
  let ?u = "demoPlan DeleteUnsharded VNil"
  let ?q = "(demoQuery VNil)\<lparr>Sql := ''delete from t''\<rparr>"
  let ?s = "\<lparr>ShardName = ''0'', ShardRange = \<lparr>Start = [], End = []\<rparr>\<rparr>"
  let ?d = "EvExecute ''delete from t'' [''id'' \<mapsto> VNil] ''TestRouter'' [''0''] ''master'' 0
              (Ret emptyResult)"
  have uev: "trace (snd (Execute (unshardedEnv ?u) ?q)) =
      [EvGetKeyspaceShards ''TestRouter'' ''master'' (Ret (''TestRouter'', [?s])), ?d]"
    by (simp add: exec_defs demo_defs unshardedEnv_def)
  have ui: "ID ?u = UpdateUnsharded \<or> ID ?u = DeleteUnsharded \<or> ID ?u = InsertUnsharded"
    and ug: "?u = GetPlan (unshardedEnv ?u) (Sql ?q)"
    by (simp_all add: demo_defs unshardedEnv_def)
  have um: "?d \<in> set (trace (snd (Execute (unshardedEnv ?u) ?q)))"
    and ud: "isDispatch ?d"
    unfolding uev by simp_all
  from dml_routing_comment[OF ug um ud] ui
  have "\<exists>ks s. ?d = EvExecute (Sql ?q) (bv (initState ?q)) ks [SrvShard.ShardName s]
                        (TabletType ?q) (Session ?q) (fst (Execute (unshardedEnv ?u) ?q))
             \<and> trace (snd (Execute (unshardedEnv ?u) ?q)) =
                 [EvGetKeyspaceShards (Name (Keyspace (Table ?u))) (TabletType ?q)
                    (Ret (ks, [s])), ?d]"
    by blast
  then have "Ret emptyResult = fst (Execute (unshardedEnv ?u) ?q)" by blast
  with uev have unsharded: "trace (snd (Execute (unshardedEnv ?u) ?q)) =
      [EvGetKeyspaceShards ''TestRouter'' ''master'' (Ret (''TestRouter'', [?s])),
       EvExecute ''delete from t'' [''id'' \<mapsto> VNil] ''TestRouter'' [''0''] ''master'' 0
         (fst (Execute (unshardedEnv ?u) ?q))]"
    by simp
  from sharded unsharded show ?thesis by (intro conjI) (erule conjunct1, erule conjunct2)
qed

text \<open>
  Claim C6 as stated covers every DML that the router dispatches. An UpdateUnsharded
  statement is dispatched with the query's own SQL, which carries no routing comment.
\<close>

theorem unsharded_dml_without_comment:
  "ID (GetPlan (unshardedEnv (demoPlan UpdateUnsharded VNil))
         (Sql ((demoQuery VNil)\<lparr>Sql := ''update t set a = 1''\<rparr>))) = UpdateUnsharded
   \<and> List.map_filter dispatchedSql (trace (snd
        (Execute (unshardedEnv (demoPlan UpdateUnsharded VNil))
           ((demoQuery VNil)\<lparr>Sql := ''update t set a = 1''\<rparr>))))
       = [''update t set a = 1'']"
  by (simp add: exec_defs demo_defs unshardedEnv_def map_filter_simps)

text \<open>
  Claim C1 says that a SelectEqual or SelectIN execution whose shard resolution fails
  returns that error and dispatches nothing. The source does otherwise:
  \<open>execSelectEqual\<close> and \<open>execSelectIN\<close> never read the error of \<open>resolveShards\<close>.
  Whenever \<open>resolveShards\<close> returns an error (from the topology lookup, from the
  vindex's \<open>Map\<close>, or for a keyspace id without a shard), the statement goes on to
  call the scatter executor with the empty keyspace name and no shards, and returns
  what the scatter executor returns.
\<close>

theorem select_ignores_resolveShards_error:
  assumes "plan = GetPlan env (Sql query)"
    and "resolveShards env query keys plan (initState query) = (Fail err, st1)"
  shows "(ID plan = SelectEqual \<and> resolveKeys [Values plan] (bv (initState query)) = Ret keys
            \<longrightarrow>
            trace (snd (Execute env query)) = trace st1 @
              [EvExecute (Rewritten plan) (bv st1) [] [] (TabletType query) (Session query)
                 (fst (Execute env query))]
            \<and> fst (Execute env query) =
                scatterExecute env (trace st1) (Rewritten plan) (bv st1) [] []
                  (TabletType query) (Session query))
       \<and> (ID plan = SelectIN \<and> Values plan = VList input
            \<and> resolveKeys input (bv (initState query)) = Ret keys \<longrightarrow>
            trace (snd (Execute env query)) = trace st1 @
              [EvExecuteMulti (Rewritten plan) [] [] (TabletType query) (Session query)
                 (fst (Execute env query))]
            \<and> fst (Execute env query) =
                scatterExecuteMulti env (trace st1) (Rewritten plan) [] []
                  (TabletType query) (Session query))"
  using assms
  by (auto simp: Execute_arms execSelectEqual_def execSelectIN_def call_Execute_def
        call_ExecuteMulti_def logged_eq routing_Shards_def shardVarsOf_def)

theorem select_ignores_resolveShards_error_witness:
  "fst (Execute (topoDownEnv (demoPlan SelectEqual (VStr '':id''))) (demoQuery (VStr ''k'')))
     = Ret emptyResult
   \<and> trace (snd (Execute (topoDownEnv (demoPlan SelectEqual (VStr '':id'')))
        (demoQuery (VStr ''k''))))
     = [EvGetKeyspaceShards ''TestRouter'' ''master'' (Fail (External ''topology down'')),
        EvExecute ''dml'' [''id'' \<mapsto> VStr ''k''] [] [] ''master'' 0 (Ret emptyResult)]"
proof -
  let ?p = "demoPlan SelectEqual (VStr '':id'')"
  let ?q = "demoQuery (VStr ''k'')"
  let ?st1 = "\<lparr>bv = [''id'' \<mapsto> VStr ''k''],
               trace = [EvGetKeyspaceShards ''TestRouter'' ''master''
                          (Fail (External ''topology down''))]\<rparr>"
  have g: "?p = GetPlan (topoDownEnv ?p) (Sql ?q)"
    by (simp add: demo_defs topoDownEnv_def)
  have rs: "resolveShards (topoDownEnv ?p) ?q [VStr ''k''] ?p (initState ?q)
              = (Fail (External ''topology down''), ?st1)"
    by (simp add: exec_defs demo_defs topoDownEnv_def)
  have i: "ID ?p = SelectEqual"
    and rk: "resolveKeys [Values ?p] (bv (initState ?q)) = Ret [VStr ''k'']"
    by (simp_all add: demo_defs resolveKeys_def initState_def)
  have sc: "scatterExecute (topoDownEnv ?p) (trace ?st1) (Rewritten ?p) (bv ?st1) [] []
              (TabletType ?q) (Session ?q) = Ret emptyResult"
    by (simp add: demo_defs topoDownEnv_def)
  from select_ignores_resolveShards_error[OF g rs] i rk
  have "trace (snd (Execute (topoDownEnv ?p) ?q)) = trace ?st1 @
              [EvExecute (Rewritten ?p) (bv ?st1) [] [] (TabletType ?q) (Session ?q)
                 (fst (Execute (topoDownEnv ?p) ?q))]
        \<and> fst (Execute (topoDownEnv ?p) ?q) =
                scatterExecute (topoDownEnv ?p) (trace ?st1) (Rewritten ?p) (bv ?st1) [] []
                  (TabletType ?q) (Session ?q)"
    by blast
  then show ?thesis unfolding sc by (simp add: demo_defs)
qed




end
